theory Spec2Isabelle
  imports Main "HOL-Library.Sublist" "HOL-Library.AList"
begin

section \<open>The file system, the log and the exceptions\<close>

text \<open>
  A path is the list of its components below the root; the root is the empty list. A
  component is the list of the bytes of its UTF-8 encoding (a \<open>char\<close> is one byte), so
  that the dot is the byte 46 and no byte of a longer character equals it. A file system
  is a finite table from paths to nodes. The content of a regular file is a list of bytes.
  \<open>Special\<close> stands for every entry that is neither a regular file nor a directory
  (socket, FIFO, device).
\<close>

type_synonym path = "string list"
type_synonym bytes = "char list"

datatype node = File bytes | Dir | Special

type_synonym fs = "(path \<times> node) list"

datatype error =
    FileExistsError | FileNotFoundError | NotADirectoryError | IsADirectoryError
  | PermissionError | OSError

datatype level = INFO | CUSTOM_INFO | WARNING | ERROR

datatype message =
    AlreadyExists string path
  | Copied string path
  | ErrorCopying path error
  | ErrorReading path error
  | SourceNotDirectory path
  | CreatingDestination path
  | Starting
  | Completed

type_synonym entry = "level \<times> message"

record world =
  files :: fs
  logs :: "entry list"

text \<open>
  What the environment supplies. Per path, the errors that do not follow from the shape of
  the file system: \<open>search_denied p\<close> says that a directory above \<open>p\<close> refuses search, so
  that no system call resolves \<open>p\<close> (\<open>EACCES\<close>, also for \<open>stat\<close>); the other fields are
  the refusal of one operation on \<open>p\<close>, a failing device and a full disk. \<open>str_lower\<close> is
  \<open>str.lower\<close> on the names that are not pure ASCII: the Unicode tables are not part of
  the program.
\<close>

record env =
  search_denied :: "path \<Rightarrow> bool"
  mkdir_denied :: "path \<Rightarrow> bool"
  list_denied :: "path \<Rightarrow> bool"
  open_read_denied :: "path \<Rightarrow> bool"
  open_write_denied :: "path \<Rightarrow> bool"
  read_error :: "path \<Rightarrow> bool"
  write_limit :: "path \<Rightarrow> nat option"
  str_lower :: "string \<Rightarrow> string"

definition no_faults :: env where
  "no_faults = \<lparr> search_denied = (\<lambda>_. False), mkdir_denied = (\<lambda>_. False),
     list_denied = (\<lambda>_. False), open_read_denied = (\<lambda>_. False),
     open_write_denied = (\<lambda>_. False), read_error = (\<lambda>_. False),
     write_limit = (\<lambda>_. None), str_lower = (\<lambda>s. s) \<rparr>"

definition node_at :: "fs \<Rightarrow> path \<Rightarrow> node option" where
  "node_at fs p = (if p = [] then Some Dir else map_of fs p)"

definition path_exists :: "fs \<Rightarrow> path \<Rightarrow> bool" where
  "path_exists fs p = (node_at fs p \<noteq> None)"

definition is_dir :: "fs \<Rightarrow> path \<Rightarrow> bool" where
  "is_dir fs p = (node_at fs p = Some Dir)"

definition is_file :: "fs \<Rightarrow> path \<Rightarrow> bool" where
  "is_file fs p = (case node_at fs p of Some (File c) \<Rightarrow> True | _ \<Rightarrow> False)"

definition put :: "path \<Rightarrow> node \<Rightarrow> fs \<Rightarrow> fs" where
  "put p n fs = AList.update p n fs"

definition name :: "path \<Rightarrow> string" where
  "name p = (if p = [] then [] else last p)"

definition parent :: "path \<Rightarrow> path" where
  "parent p = butlast p"

text \<open>The error of an operation on a path that does not exist.\<close>

definition missing_error :: "fs \<Rightarrow> path \<Rightarrow> error" where
  "missing_error fs p =
     (case node_at fs (parent p) of
        Some (File c) \<Rightarrow> NotADirectoryError
      | Some Special \<Rightarrow> NotADirectoryError
      | _ \<Rightarrow> FileNotFoundError)"

section \<open>The library calls the program makes\<close>

text \<open>
  \<open>Path.exists\<close>, \<open>Path.is_file\<close> and \<open>Path.is_dir\<close> (pathlib of Python 3.11): they
  call \<open>stat\<close>, answer \<open>False\<close> when the path does not exist, and raise again every
  other error of \<open>stat\<close>, such as the \<open>PermissionError\<close> of a path that cannot be
  resolved.
\<close>

definition Path_exists :: "env \<Rightarrow> fs \<Rightarrow> path \<Rightarrow> error + bool" where
  "Path_exists F fs p =
     (if search_denied F p then Inl PermissionError else Inr (path_exists fs p))"

definition Path_is_file :: "env \<Rightarrow> fs \<Rightarrow> path \<Rightarrow> error + bool" where
  "Path_is_file F fs p =
     (if search_denied F p then Inl PermissionError else Inr (is_file fs p))"

definition Path_is_dir :: "env \<Rightarrow> fs \<Rightarrow> path \<Rightarrow> error + bool" where
  "Path_is_dir F fs p =
     (if search_denied F p then Inl PermissionError else Inr (is_dir fs p))"

text \<open>\<open>os.mkdir\<close>: creates one directory, its parent must be a directory.\<close>

definition os_mkdir :: "env \<Rightarrow> path \<Rightarrow> fs \<Rightarrow> error + fs" where
  "os_mkdir F p fs =
     (if search_denied F p then Inl PermissionError
      else if path_exists fs p then Inl FileExistsError
      else if \<not> is_dir fs (parent p) then Inl (missing_error fs p)
      else if mkdir_denied F p then Inl PermissionError
      else Inr (put p Dir fs))"

text \<open>
  \<open>Path.mkdir(parents=False, exist_ok=exist_ok)\<close>: the result is the exception raised,
  if any, and the file system left behind. After an error of \<open>os.mkdir\<close> other than
  \<open>FileNotFoundError\<close> the method evaluates \<open>not exist_ok or not self.is_dir()\<close>.
\<close>

definition mkdir_single :: "env \<Rightarrow> bool \<Rightarrow> path \<Rightarrow> fs \<Rightarrow> error option \<times> fs" where
  "mkdir_single F exist_ok p fs =
     (case os_mkdir F p fs of
        Inr fs' \<Rightarrow> (None, fs')
      | Inl e \<Rightarrow>
          if e = FileNotFoundError then (Some e, fs)
          else if \<not> exist_ok then (Some e, fs)
          else (case Path_is_dir F fs p of
                  Inl e' \<Rightarrow> (Some e', fs)
                | Inr d \<Rightarrow> if d then (None, fs) else (Some e, fs)))"

text \<open>\<open>Path.mkdir(parents=True, exist_ok=exist_ok)\<close>.\<close>

function mkdir :: "env \<Rightarrow> bool \<Rightarrow> path \<Rightarrow> fs \<Rightarrow> error option \<times> fs" where
  "mkdir F exist_ok p fs =
     (case os_mkdir F p fs of
        Inr fs' \<Rightarrow> (None, fs')
      | Inl e \<Rightarrow>
          if e = FileNotFoundError then
            (if p = [] then (Some e, fs)
             else (case mkdir F True (parent p) fs of
                     (Some e', fs1) \<Rightarrow> (Some e', fs1)
                   | (None, fs1) \<Rightarrow> mkdir_single F exist_ok p fs1))
          else if \<not> exist_ok then (Some e, fs)
          else (case Path_is_dir F fs p of
                  Inl e' \<Rightarrow> (Some e', fs)
                | Inr d \<Rightarrow> if d then (None, fs) else (Some e, fs)))"
  by pat_completeness auto
termination
  by (relation "measure (\<lambda>(F, ok, p, fs). length p)") (auto simp: parent_def)

declare mkdir.simps [simp del]

text \<open>\<open>open(p, "rb")\<close>: the exception it raises, if any.\<close>

definition open_rb :: "env \<Rightarrow> fs \<Rightarrow> path \<Rightarrow> error option" where
  "open_rb F fs p =
     (if search_denied F p then Some PermissionError
      else case node_at fs p of
        None \<Rightarrow> Some (missing_error fs p)
      | Some Dir \<Rightarrow> Some IsADirectoryError
      | Some Special \<Rightarrow> Some OSError
      | Some (File c) \<Rightarrow> if open_read_denied F p then Some PermissionError else None)"

text \<open>\<open>open(p, "wb")\<close>: creates the file empty, or truncates it.\<close>

definition open_wb :: "env \<Rightarrow> fs \<Rightarrow> path \<Rightarrow> error + fs" where
  "open_wb F fs p =
     (if search_denied F p then Inl PermissionError
      else case node_at fs p of
        Some Dir \<Rightarrow> Inl IsADirectoryError
      | Some Special \<Rightarrow> Inl OSError
      | Some (File c) \<Rightarrow>
          if open_write_denied F p then Inl PermissionError else Inr (put p (File []) fs)
      | None \<Rightarrow>
          if \<not> is_dir fs (parent p) then Inl (missing_error fs p)
          else if open_write_denied F p then Inl PermissionError
          else Inr (put p (File []) fs))"

text \<open>\<open>src.read()\<close> on the open source: the bytes the file holds at that moment.\<close>

definition read_all :: "env \<Rightarrow> fs \<Rightarrow> path \<Rightarrow> error + bytes" where
  "read_all F fs p =
     (case node_at fs p of
        Some (File c) \<Rightarrow> if read_error F p then Inl OSError else Inr c
      | _ \<Rightarrow> Inl OSError)"

text \<open>
  \<open>dst.write(data)\<close> on the open destination: when the environment accepts only \<open>k\<close>
  bytes and the data is longer, the first \<open>k\<close> bytes stay in the file and the call raises.
\<close>

definition write_all :: "env \<Rightarrow> path \<Rightarrow> bytes \<Rightarrow> fs \<Rightarrow> error option \<times> fs" where
  "write_all F p data fs =
     (case write_limit F p of
        None \<Rightarrow> (None, put p (File data) fs)
      | Some k \<Rightarrow>
          if k < length data then (Some OSError, put p (File (take k data)) fs)
          else (None, put p (File data) fs))"

text \<open>\<open>Path.iterdir\<close>: the entries of a directory, each once, in the table's order.\<close>

definition children :: "fs \<Rightarrow> path \<Rightarrow> path list" where
  "children fs p = remdups (filter (\<lambda>q. q \<noteq> [] \<and> parent q = p) (map fst fs))"

definition iterdir :: "env \<Rightarrow> fs \<Rightarrow> path \<Rightarrow> error + path list" where
  "iterdir F fs p =
     (if search_denied F p then Inl PermissionError
      else case node_at fs p of
        None \<Rightarrow> Inl (missing_error fs p)
      | Some Dir \<Rightarrow> if list_denied F p then Inl PermissionError else Inr (children fs p)
      | Some _ \<Rightarrow> Inl NotADirectoryError)"

section \<open>The extension of a file name\<close>

text \<open>\<open>str.rfind\<close> of one character: the index of its last occurrence.\<close>

fun rfind :: "char \<Rightarrow> string \<Rightarrow> nat option" where
  "rfind c [] = None"
| "rfind c (x # xs) =
     (case rfind c xs of
        Some i \<Rightarrow> Some (Suc i)
      | None \<Rightarrow> if x = c then Some 0 else None)"

text \<open>
  \<open>PurePath.suffix\<close> as pathlib computes it up to Python 3.13: the name from its last dot
  on, unless that dot is the first or the last character of the name.
\<close>

definition path_suffix :: "string \<Rightarrow> string" where
  "path_suffix nm =
     (case rfind (CHR ''.'') nm of
        None \<Rightarrow> []
      | Some i \<Rightarrow> if 0 < i \<and> i < length nm - 1 then drop i nm else [])"

definition lstrip :: "char \<Rightarrow> string \<Rightarrow> string" where
  "lstrip c s = dropWhile (\<lambda>x. x = c) s"

text \<open>
  \<open>str.lower\<close>. In a string of ASCII characters only the letters A to Z change; a string
  with other characters is lowercased by the tables of the environment.
\<close>

definition lower_char :: "char \<Rightarrow> char" where
  "lower_char c =
     (if 65 \<le> (of_char c :: nat) \<and> (of_char c :: nat) \<le> 90
      then char_of ((of_char c :: nat) + 32) else c)"

definition ascii :: "string \<Rightarrow> bool" where
  "ascii s = list_all (\<lambda>c. (of_char c :: nat) < 128) s"

definition lower :: "env \<Rightarrow> string \<Rightarrow> string" where
  "lower F s = (if ascii s then map lower_char s else str_lower F s)"

text \<open>Lines 61 to 63 of \<open>copy_file\<close>.\<close>

definition file_extension :: "env \<Rightarrow> string \<Rightarrow> string" where
  "file_extension F nm =
     (let ext = lower F (lstrip (CHR ''.'') (path_suffix nm))
      in if ext = [] then ''unknown'' else ext)"

section \<open>The copier\<close>

definition dest_path :: "env \<Rightarrow> path \<Rightarrow> path \<Rightarrow> path" where
  "dest_path F dest_folder file_path = dest_folder @ [file_extension F (name file_path)]"

definition dest_file :: "env \<Rightarrow> path \<Rightarrow> path \<Rightarrow> path" where
  "dest_file F dest_folder file_path = dest_path F dest_folder file_path @ [name file_path]"

text \<open>
  The body of the \<open>try\<close> of \<open>copy_file\<close>, in the two parts in which the event loop runs
  it. \<open>copy_file_start\<close> is lines 61 to 75, which hold no \<open>await\<close>: it creates the bucket
  directory and checks the destination, and its result is the exception it raises, the
  warning after which it returns, or \<open>None\<close> when the coroutine goes on to line 78, where
  it is suspended for the first time (\<open>aiofiles\<close> opens the source in a thread).
  \<open>copy_file_rest\<close> is lines 78 to 83. The result of the body is the file system it
  leaves, and either the exception it raises or the line it logs when it completes.
\<close>

definition copy_file_start ::
  "env \<Rightarrow> path \<Rightarrow> path \<Rightarrow> fs \<Rightarrow> fs \<times> (error + entry) option" where
  "copy_file_start F file_path dest_folder fs =
     (case mkdir F True (dest_path F dest_folder file_path) fs of
        (Some e, fs1) \<Rightarrow> (fs1, Some (Inl e))
      | (None, fs1) \<Rightarrow>
          (case Path_exists F fs1 (dest_file F dest_folder file_path) of
             Inl e \<Rightarrow> (fs1, Some (Inl e))
           | Inr ex \<Rightarrow>
               if ex
               then (fs1, Some (Inr (WARNING,
                       AlreadyExists (name file_path) (dest_path F dest_folder file_path))))
               else (fs1, None)))"

definition copy_file_rest :: "env \<Rightarrow> path \<Rightarrow> path \<Rightarrow> fs \<Rightarrow> fs \<times> (error + entry)" where
  "copy_file_rest F file_path dest_folder fs1 =
     (case open_rb F fs1 file_path of
        Some e \<Rightarrow> (fs1, Inl e)
      | None \<Rightarrow>
          (case open_wb F fs1 (dest_file F dest_folder file_path) of
             Inl e \<Rightarrow> (fs1, Inl e)
           | Inr fs2 \<Rightarrow>
               (case read_all F fs2 file_path of
                  Inl e \<Rightarrow> (fs2, Inl e)
                | Inr data \<Rightarrow>
                    (case write_all F (dest_file F dest_folder file_path) data fs2 of
                       (Some e, fs3) \<Rightarrow> (fs3, Inl e)
                     | (None, fs3) \<Rightarrow>
                         (fs3, Inr (INFO, Copied (name file_path)
                                      (dest_path F dest_folder file_path)))))))"

definition copy_file_body :: "env \<Rightarrow> path \<Rightarrow> path \<Rightarrow> fs \<Rightarrow> fs \<times> (error + entry)" where
  "copy_file_body F file_path dest_folder fs =
     (case copy_file_start F file_path dest_folder fs of
        (fs1, Some r) \<Rightarrow> (fs1, r)
      | (fs1, None) \<Rightarrow> copy_file_rest F file_path dest_folder fs1)"

text \<open>
  The end of a part of \<open>copy_file\<close>: the line it logs is appended, and the
  \<open>except Exception\<close> turns an exception into an error line.
\<close>

definition finish :: "path \<Rightarrow> world \<Rightarrow> fs \<times> (error + entry) \<Rightarrow> world" where
  "finish file_path w r =
     (case r of
        (fs', Inr line) \<Rightarrow> \<lparr> files = fs', logs = logs w @ [line] \<rparr>
      | (fs', Inl e) \<Rightarrow> \<lparr> files = fs', logs = logs w @ [(ERROR, ErrorCopying file_path e)] \<rparr>)"

text \<open>\<open>copy_file\<close>, run from its call to its return with nothing in between.\<close>

definition copy_file :: "env \<Rightarrow> path \<Rightarrow> path \<Rightarrow> world \<Rightarrow> world" where
  "copy_file F file_path dest_folder w =
     finish file_path w (copy_file_body F file_path dest_folder (files w))"

text \<open>
  The first step of the task of a \<open>copy_file\<close>, up to its return or to its first
  suspension (\<open>True\<close>), and the rest of the task.
\<close>

definition copy_file_first :: "env \<Rightarrow> path \<Rightarrow> path \<Rightarrow> world \<Rightarrow> world \<times> bool" where
  "copy_file_first F file_path dest_folder w =
     (case copy_file_start F file_path dest_folder (files w) of
        (fs1, None) \<Rightarrow> (\<lparr> files = fs1, logs = logs w \<rparr>, True)
      | (fs1, Some r) \<Rightarrow> (finish file_path w (fs1, r), False))"

definition copy_file_resume :: "env \<Rightarrow> path \<Rightarrow> path \<Rightarrow> world \<Rightarrow> world" where
  "copy_file_resume F file_path dest_folder w =
     finish file_path w (copy_file_rest F file_path dest_folder (files w))"

section \<open>The walker\<close>

datatype task = CopyFile path | ReadFolder path

text \<open>
  The loop of \<open>read_folder\<close>: one task for each file and each directory listed. An
  exception of \<open>is_file\<close> or \<open>is_dir\<close> leaves the loop.
\<close>

fun schedule :: "env \<Rightarrow> fs \<Rightarrow> path list \<Rightarrow> error + task list" where
  "schedule F fs [] = Inr []"
| "schedule F fs (item # items) =
     (case Path_is_file F fs item of
        Inl e \<Rightarrow> Inl e
      | Inr f \<Rightarrow>
          if f then map_sum id (Cons (CopyFile item)) (schedule F fs items)
          else (case Path_is_dir F fs item of
                  Inl e \<Rightarrow> Inl e
                | Inr d \<Rightarrow>
                    if d then map_sum id (Cons (ReadFolder item)) (schedule F fs items)
                    else schedule F fs items))"

text \<open>
  The first step of the task of a \<open>read_folder\<close>, lines 99 to 107 up to the \<open>await\<close>: the
  tasks it hands to \<open>asyncio.gather\<close>. When the listing or the loop raises, the
  \<open>except Exception\<close> logs the error and no task is run.
\<close>

definition read_folder_first :: "env \<Rightarrow> path \<Rightarrow> world \<Rightarrow> world \<times> task list" where
  "read_folder_first F source_folder w =
     (case iterdir F (files w) source_folder of
        Inl e \<Rightarrow> (w\<lparr> logs := logs w @ [(ERROR, ErrorReading source_folder e)] \<rparr>, [])
      | Inr items \<Rightarrow>
          (case schedule F (files w) items of
             Inl e \<Rightarrow> (w\<lparr> logs := logs w @ [(ERROR, ErrorReading source_folder e)] \<rparr>, [])
           | Inr tasks \<Rightarrow> (w, tasks)))"

text \<open>
  One iteration of the event loop: the tasks that are ready take their first step, in the
  order in which \<open>asyncio.gather\<close> created them. The result is the world left, the tasks
  created in this iteration, which are ready in the next one, and the copies now
  suspended.
\<close>

fun run_ready :: "env \<Rightarrow> path \<Rightarrow> task list \<Rightarrow> world \<Rightarrow> world \<times> task list \<times> path list" where
  "run_ready F dest_folder [] w = (w, [], [])"
| "run_ready F dest_folder (CopyFile item # tasks) w =
     (case copy_file_first F item dest_folder w of
        (w1, suspended) \<Rightarrow>
          (case run_ready F dest_folder tasks w1 of
             (w2, created, pending) \<Rightarrow>
               (w2, created, (if suspended then [item] else []) @ pending)))"
| "run_ready F dest_folder (ReadFolder item # tasks) w =
     (case read_folder_first F item w of
        (w1, new) \<Rightarrow>
          (case run_ready F dest_folder tasks w1 of
             (w2, created, pending) \<Rightarrow> (w2, new @ created, pending)))"

text \<open>
  The iterations of the event loop until no task is ready. The first argument bounds
  their number: \<open>None\<close> is a loop that still had ready tasks after that many iterations.
\<close>

fun run_loop ::
  "nat \<Rightarrow> env \<Rightarrow> path \<Rightarrow> task list \<Rightarrow> world \<Rightarrow> (world \<times> path list) option" where
  "run_loop n F dest_folder [] w = Some (w, [])"
| "run_loop 0 F dest_folder (t # tasks) w = None"
| "run_loop (Suc n) F dest_folder (t # tasks) w =
     (case run_ready F dest_folder (t # tasks) w of
        (w1, created, pending) \<Rightarrow>
          (case run_loop n F dest_folder created w1 of
             None \<Rightarrow> None
           | Some (w2, pending') \<Rightarrow> Some (w2, pending @ pending')))"

text \<open>The suspended copies complete, in the order in which they were started.\<close>

fun resume_all :: "env \<Rightarrow> path \<Rightarrow> path list \<Rightarrow> world \<Rightarrow> world" where
  "resume_all F dest_folder [] w = w"
| "resume_all F dest_folder (item # pending) w =
     resume_all F dest_folder pending (copy_file_resume F item dest_folder w)"

text \<open>
  The tasks of one \<open>asyncio.gather\<close> run to completion. The event loop fixes the order of
  the first steps: a task takes its first step in the iteration after the one that created
  it, so the first steps of the tasks of one \<open>gather\<close> follow one another with no other
  part of a task in between. It does not fix when the thread pool serves a suspended copy;
  here every suspended copy completes after the last first step.
\<close>

definition gather :: "nat \<Rightarrow> env \<Rightarrow> path \<Rightarrow> task list \<Rightarrow> world \<Rightarrow> world option" where
  "gather n F dest_folder tasks w =
     (case run_loop n F dest_folder tasks w of
        None \<Rightarrow> None
      | Some (w1, pending) \<Rightarrow> Some (resume_all F dest_folder pending w1))"

text \<open>\<open>asyncio.run(read_folder(source_folder, dest_folder))\<close>.\<close>

definition read_folder :: "nat \<Rightarrow> env \<Rightarrow> path \<Rightarrow> path \<Rightarrow> world \<Rightarrow> world option" where
  "read_folder n F source_folder dest_folder w =
     gather n F dest_folder [ReadFolder source_folder] w"

section \<open>The entry point\<close>

datatype outcome = Returned world | Raised error world

definition log_line :: "level \<Rightarrow> message \<Rightarrow> world \<Rightarrow> world" where
  "log_line l m w = w\<lparr> logs := logs w @ [(l, m)] \<rparr>"

text \<open>Lines 150 to 152 of \<open>main\<close>: the exception raised, if any, and the world left.\<close>

definition make_destination :: "env \<Rightarrow> path \<Rightarrow> world \<Rightarrow> error option \<times> world" where
  "make_destination F sorted_folder w =
     (case Path_exists F (files w) sorted_folder of
        Inl e \<Rightarrow> (Some e, w)
      | Inr ex \<Rightarrow>
          if ex then (None, w)
          else (let w1 = log_line INFO (CreatingDestination sorted_folder) w
                in case mkdir F False sorted_folder (files w1) of
                     (r, fs') \<Rightarrow> (r, w1\<lparr> files := fs' \<rparr>)))"

text \<open>
  \<open>main\<close> from line 141 on, the two paths parsed. \<open>Raised\<close> is an exception that leaves
  \<open>main\<close>; \<open>None\<close> is a walk that did not return within the bound.
\<close>

definition main :: "nat \<Rightarrow> env \<Rightarrow> path \<Rightarrow> path \<Rightarrow> world \<Rightarrow> outcome option" where
  "main n F source_folder sorted_folder w =
     (case Path_is_dir F (files w) source_folder of
        Inl e \<Rightarrow> Some (Raised e w)
      | Inr d \<Rightarrow>
          if \<not> d
          then Some (Returned (log_line ERROR (SourceNotDirectory source_folder) w))
          else
            (case make_destination F sorted_folder w of
               (Some e, w') \<Rightarrow> Some (Raised e w')
             | (None, w2) \<Rightarrow>
                 (case read_folder n F source_folder sorted_folder
                         (log_line CUSTOM_INFO Starting w2) of
                    None \<Rightarrow> None
                  | Some w3 \<Rightarrow> Some (Returned (log_line CUSTOM_INFO Completed w3)))))"

section \<open>The specification's reading of the extension\<close>

text \<open>
  The extension as the specification words it: the text after the last dot, lowercased,
  and \<open>unknown\<close> when the name has no dot or when its only dot is the leading one.
\<close>

definition after_last_dot :: "string \<Rightarrow> string" where
  "after_last_dot nm =
     (case rfind (CHR ''.'') nm of None \<Rightarrow> [] | Some i \<Rightarrow> drop (Suc i) nm)"

definition spec_extension :: "env \<Rightarrow> string \<Rightarrow> string" where
  "spec_extension F nm =
     (if CHR ''.'' \<notin> set nm \<or> (hd nm = CHR ''.'' \<and> CHR ''.'' \<notin> set (tl nm))
      then ''unknown'' else lower F (after_last_dot nm))"

section \<open>Invariants of the file system\<close>

text \<open>
  A file system is well formed when every entry lies in a directory. \<open>grows\<close> and
  \<open>adds\<close> relate a file system to a later one. \<open>grows p\<close>: nothing that exists changes,
  and what is new is a directory on the way to \<open>p\<close>. \<open>adds dst\<close>: what changes is a new
  directory on the way to a bucket directory of the destination, or a regular file two
  levels below the destination, new or rewritten.
\<close>

definition wf_fs :: "fs \<Rightarrow> bool" where
  "wf_fs fs \<longleftrightarrow> (\<forall>q. q \<noteq> [] \<and> path_exists fs q \<longrightarrow> is_dir fs (parent q))"

definition grows :: "path \<Rightarrow> fs \<Rightarrow> fs \<Rightarrow> bool" where
  "grows p fs fs' \<longleftrightarrow>
     (\<forall>q. node_at fs' q = node_at fs q
        \<or> (node_at fs q = None \<and> node_at fs' q = Some Dir \<and> prefix q p))"

definition adds :: "path \<Rightarrow> fs \<Rightarrow> fs \<Rightarrow> bool" where
  "adds dst fs fs' \<longleftrightarrow>
     (\<forall>q. node_at fs' q = node_at fs q
        \<or> (node_at fs q = None \<and> node_at fs' q = Some Dir
            \<and> (prefix q dst \<or> (\<exists>e. q = dst @ [e])))
        \<or> ((node_at fs q = None \<or> is_file fs q) \<and> is_file fs' q
            \<and> (\<exists>e n. q = dst @ [e, n])))"

text \<open>No entry of the file system lies deeper than \<open>k\<close>.\<close>

definition depth_le :: "nat \<Rightarrow> fs \<Rightarrow> bool" where
  "depth_le k fs \<longleftrightarrow> (\<forall>q. path_exists fs q \<longrightarrow> length q \<le> k)"

definition le_world :: "path \<Rightarrow> world \<Rightarrow> world \<Rightarrow> bool" where
  "le_world dst w w' \<longleftrightarrow> adds dst (files w) (files w') \<and> prefix (logs w) (logs w')"

text \<open>The lines a run added to the log, and the world a run of \<open>main\<close> leaves.\<close>

definition new_lines :: "world \<Rightarrow> world \<Rightarrow> entry set" where
  "new_lines w w' = set (drop (length (logs w)) (logs w'))"

definition final_world :: "outcome \<Rightarrow> world" where
  "final_world r = (case r of Returned w \<Rightarrow> w | Raised e w \<Rightarrow> w)"

section \<open>Example worlds\<close>

text \<open>
  A destination that already holds \<open>txt/a.txt\<close>; a destination where a regular file
  sits at the bucket path \<open>txt\<close>; an empty destination; a device whose reads fail; a disk
  that takes two more bytes; a bucket directory \<open>d/txt\<close> that refuses search, so that
  nothing in it can be resolved.
\<close>

definition w_collide :: world where
  "w_collide = \<lparr> files = [([''d''], Dir), ([''d'', ''txt''], Dir),
       ([''d'', ''txt'', ''a.txt''], File ''old''), ([''s''], Dir),
       ([''s'', ''a.txt''], File ''new'')], logs = [] \<rparr>"

definition w_blocked :: world where
  "w_blocked = \<lparr> files = [([''d''], Dir), ([''d'', ''txt''], File ''x''), ([''s''], Dir),
       ([''s'', ''a.txt''], File ''A'')], logs = [] \<rparr>"

definition w_fresh :: world where
  "w_fresh = \<lparr> files = [([''d''], Dir), ([''s''], Dir),
       ([''s'', ''a.txt''], File ''hello'')], logs = [] \<rparr>"

definition read_fails :: env where
  "read_fails = no_faults\<lparr> read_error := (\<lambda>_. True) \<rparr>"

definition disk_full :: env where
  "disk_full = no_faults\<lparr> write_limit := (\<lambda>_. Some 2) \<rparr>"

definition bucket_closed :: env where
  "bucket_closed = no_faults\<lparr> search_denied :=
     (\<lambda>p. prefix [''d'', ''txt''] p \<and> p \<noteq> [''d'', ''txt'']) \<rparr>"

text \<open>
  A source directory that holds a socket next to a file, and the same directory when it
  refuses search; a world where the path \<open>f\<close> is a regular file and no destination exists
  yet, and an environment where the source path cannot be resolved.
\<close>

definition w_special :: world where
  "w_special = \<lparr> files = [([''d''], Dir), ([''s''], Dir), ([''s'', ''sock''], Special),
       ([''s'', ''a.txt''], File ''hello'')], logs = [] \<rparr>"

definition source_closed :: env where
  "source_closed = no_faults\<lparr> search_denied :=
     (\<lambda>p. prefix [''s''] p \<and> p \<noteq> [''s'']) \<rparr>"

definition w_nodir :: world where
  "w_nodir = \<lparr> files = [([''s''], Dir), ([''s'', ''a.txt''], File ''hello''),
       ([''f''], File ''x'')], logs = [] \<rparr>"

text \<open>
  Two source files of the same name in different folders; a destination that lies inside
  the source.
\<close>

definition w_dup :: world where
  "w_dup = \<lparr> files = [([''d''], Dir), ([''s''], Dir), ([''s'', ''a''], Dir),
       ([''s'', ''a'', ''x.txt''], File ''one''), ([''s'', ''b''], Dir),
       ([''s'', ''b'', ''x.txt''], File ''two'')], logs = [] \<rparr>"

definition w_inside :: world where
  "w_inside = \<lparr> files = [([''s''], Dir), ([''s'', ''a.txt''], File ''hello'')], logs = [] \<rparr>"

text \<open>The path a task works on.\<close>

fun task_path :: "task \<Rightarrow> path" where
  "task_path (CopyFile p) = p"
| "task_path (ReadFolder p) = p"

(*DEFS*)

section \<open>Properties of the extension\<close>

lemma rfind_None: "rfind c s = None \<longleftrightarrow> c \<notin> set s"
  by (induction s) (auto split: option.splits)

lemma rfind_last: "c \<notin> set ext \<Longrightarrow> rfind c (pre @ c # ext) = Some (length pre)"
  by (induction pre) (auto simp: rfind_None split: option.splits)

lemma lstrip_dot: "c \<notin> set ext \<Longrightarrow> lstrip c (c # ext) = ext"
  by (cases ext) (auto simp: lstrip_def)

lemma lower_Nil [simp]: "lower F [] = []"
  by (simp add: lower_def ascii_def)

lemma lower_ascii: "ascii s \<Longrightarrow> lower F s = map lower_char s"
  by (simp add: lower_def)

lemma file_extension_no_dot:
  "CHR ''.'' \<notin> set nm \<Longrightarrow> file_extension F nm = ''unknown''"
  using rfind_None[of "CHR ''.''" nm]
  by (simp add: file_extension_def path_suffix_def lstrip_def)

lemma file_extension_split:
  assumes "CHR ''.'' \<notin> set ext"
  shows "file_extension F (pre @ CHR ''.'' # ext) =
         (if pre = [] \<or> lower F ext = [] then ''unknown'' else lower F ext)"
proof -
  have r: "rfind (CHR ''.'') (pre @ CHR ''.'' # ext) = Some (length pre)"
    using assms by (rule rfind_last)
  show ?thesis
  proof (cases "pre = [] \<or> ext = []")
    case True
    then have "path_suffix (pre @ CHR ''.'' # ext) = []"
      using r by (auto simp: path_suffix_def)
    then show ?thesis using True
      by (auto simp add: file_extension_def lstrip_def)
  next
    case False
    then have "path_suffix (pre @ CHR ''.'' # ext) = CHR ''.'' # ext"
      using r by (simp add: path_suffix_def)
    then show ?thesis using False assms
      by (simp add: file_extension_def lstrip_dot Let_def)
  qed
qed

lemma ext_a: "file_extension F ''a.txt'' = ''txt''"
  unfolding file_extension_def lower_def by code_simp

lemma ext_x: "file_extension F ''x.txt'' = ''txt''"
  unfolding file_extension_def lower_def by code_simp

text \<open>
  C3, as stated, fails: for a name that ends in a dot, such as \<open>foo.\<close>, the text after
  the last dot is empty, the name has a dot and it is not a leading one, so the
  specification's wording gives the empty bucket; the code gives \<open>unknown\<close>.
\<close>

theorem C3_trailing_dot_counterexample:
  "file_extension no_faults ''foo.'' = ''unknown'' \<and> spec_extension no_faults ''foo.'' = []"
  by (simp add: file_extension_def path_suffix_def lstrip_def
      spec_extension_def after_last_dot_def)

text \<open>
  C3, amended: a name without a dot buckets under \<open>unknown\<close>; a name cut at its last dot
  into \<open>pre\<close> and \<open>ext\<close> buckets under \<open>unknown\<close> when that dot is the first character
  (\<open>pre\<close> empty), when it is the last character (\<open>ext\<close> empty) or when \<open>ext\<close>
  lowercased is empty, and under \<open>ext\<close> lowercased otherwise. When \<open>ext\<close> is made
  of ASCII characters, lowercasing it changes the letters A to Z only and the bucket is
  \<open>unknown\<close> exactly when \<open>pre\<close> or \<open>ext\<close> is empty. \<open>archive.TAR.GZ\<close> buckets under
  \<open>gz\<close>, \<open>.gitignore\<close> and \<open>noext\<close> under \<open>unknown\<close>, whatever the environment.
\<close>

theorem C3_extension_bucket:
  "(CHR ''.'' \<notin> set nm \<longrightarrow> file_extension F nm = ''unknown'')
   \<and> (\<forall>pre ext. nm = pre @ CHR ''.'' # ext \<and> CHR ''.'' \<notin> set ext \<longrightarrow>
          file_extension F nm
              = (if pre = [] \<or> ext = [] \<or> lower F ext = [] then ''unknown''
                 else lower F ext)
          \<and> (ascii ext \<longrightarrow>
                file_extension F nm
                  = (if pre = [] \<or> ext = [] then ''unknown'' else map lower_char ext)))
   \<and> file_extension F ''archive.TAR.GZ'' = ''gz''
   \<and> file_extension F ''.gitignore'' = ''unknown''
   \<and> file_extension F ''noext'' = ''unknown''"
proof -
  have a: "file_extension F ''archive.TAR.GZ'' = ''gz''"
    unfolding file_extension_def lower_def by code_simp
  have b: "file_extension F ''.gitignore'' = ''unknown''"
    unfolding file_extension_def lower_def by code_simp
  have c: "file_extension F ''noext'' = ''unknown''"
    unfolding file_extension_def lower_def by code_simp
  have d: "file_extension F (pre @ CHR ''.'' # ext)
             = (if pre = [] \<or> ext = [] then ''unknown'' else map lower_char ext)"
    if "CHR ''.'' \<notin> set ext" "ascii ext" for pre ext
    using file_extension_split[OF that(1), of F pre] that(2) by (auto simp: lower_ascii)
  show ?thesis
    using a b c d file_extension_no_dot file_extension_split by auto
qed

theorem C3_extension_bucket_witness:
  "CHR ''.'' \<notin> set ''TXT'' \<and> ascii ''TXT''
   \<and> file_extension no_faults ''Report.v2.TXT'' = ''txt''
   \<and> CHR ''.'' \<notin> set ''Makefile'' \<and> file_extension no_faults ''Makefile'' = ''unknown''"
proof -
  have a: "CHR ''.'' \<notin> set ''TXT''" "ascii ''TXT''" by (simp_all add: ascii_def)
  have b: "CHR ''.'' \<notin> set ''Makefile''" by simp
  have c: "''Report.v2.TXT'' = ''Report.v2'' @ CHR ''.'' # ''TXT''" by simp
  have l: "map lower_char ''TXT'' = ''txt''" by code_simp
  from C3_extension_bucket[of "''Report.v2.TXT''" no_faults] a c
  have "file_extension no_faults ''Report.v2.TXT'' = map lower_char ''TXT''"
    by (metis list.distinct(1))
  moreover from C3_extension_bucket[of "''Makefile''" no_faults] b
  have "file_extension no_faults ''Makefile'' = ''unknown''" by blast
  ultimately show ?thesis using a b l by simp
qed

section \<open>The file system under the library calls\<close>

lemma node_at_put:
  "node_at (put p n fs) q = (if q = p \<and> p \<noteq> [] then Some n else node_at fs q)"
  by (auto simp: node_at_def put_def update_conv')

lemma is_file_iff: "is_file fs p \<longleftrightarrow> (\<exists>c. node_at fs p = Some (File c))"
  by (auto simp: is_file_def split: option.splits node.splits)

lemma grows_refl: "grows p fs fs"
  by (simp add: grows_def)

lemma grows_trans: "grows p fs fs1 \<Longrightarrow> grows p fs1 fs2 \<Longrightarrow> grows p fs fs2"
  unfolding grows_def by metis

lemma grows_prefix: "grows p fs fs' \<Longrightarrow> prefix p p' \<Longrightarrow> grows p' fs fs'"
  unfolding grows_def by (meson prefix_order.trans)

lemma parent_prefix: "prefix (parent p) p"
  by (simp add: parent_def prefixeq_butlast)

lemma os_mkdir_Inr:
  assumes "os_mkdir F p fs = Inr fs'"
  shows "fs' = put p Dir fs" "p \<noteq> []" "node_at fs p = None" "is_dir fs (parent p)"
    "\<not> search_denied F p"
  using assms by (auto simp: os_mkdir_def path_exists_def node_at_def split: if_splits)

lemma os_mkdir_grows:
  assumes "os_mkdir F p fs = Inr fs'"
  shows "grows p fs fs'" "is_dir fs' p" "wf_fs fs \<Longrightarrow> wf_fs fs'"
proof -
  note f = os_mkdir_Inr[OF assms]
  show "grows p fs fs'" using f by (auto simp: grows_def node_at_put)
  show "is_dir fs' p" using f by (simp add: is_dir_def node_at_put)
  show "wf_fs fs'" if "wf_fs fs"
    unfolding wf_fs_def path_exists_def is_dir_def
  proof (intro allI impI)
    fix q assume q: "q \<noteq> [] \<and> node_at fs' q \<noteq> None"
    show "node_at fs' (parent q) = Some Dir"
    proof (cases "q = p")
      case True
      then show ?thesis using f by (auto simp: node_at_put is_dir_def)
    next
      case False
      then have "node_at fs q \<noteq> None" using q f by (simp add: node_at_put)
      then have "node_at fs (parent q) = Some Dir"
        using that q by (simp add: wf_fs_def path_exists_def is_dir_def)
      then show ?thesis using f by (auto simp: node_at_put)
    qed
  qed
qed

lemma exist_ok_cases:
  assumes "(case Path_is_dir F fs p of
              Inl e' \<Rightarrow> (Some e', fs)
            | Inr d \<Rightarrow> if d then (None, fs) else (Some e, fs)) = (r, fs')"
  shows "fs' = fs" "r = None \<Longrightarrow> is_dir fs p \<and> \<not> search_denied F p"
  using assms by (auto simp: Path_is_dir_def split: if_splits)

lemma mkdir_single_aux:
  assumes "mkdir_single F ok p fs = (r, fs')"
  shows "grows p fs fs' \<and> (r = None \<longrightarrow> is_dir fs' p \<and> \<not> search_denied F p)
        \<and> (wf_fs fs \<longrightarrow> wf_fs fs') \<and> (r \<noteq> None \<longrightarrow> fs' = fs)"
proof (cases "os_mkdir F p fs")
  case (Inr fs1)
  then have "r = None" "fs' = fs1" using assms by (simp_all add: mkdir_single_def)
  then show ?thesis
    using os_mkdir_grows[OF Inr] os_mkdir_Inr(5)[OF Inr] by simp
next
  case (Inl e)
  show ?thesis
  proof (cases "e = FileNotFoundError \<or> \<not> ok")
    case True
    then show ?thesis using assms Inl
      by (auto simp: mkdir_single_def grows_refl split: if_splits)
  next
    case False
    then have "(case Path_is_dir F fs p of
            Inl e' \<Rightarrow> (Some e', fs)
          | Inr d \<Rightarrow> if d then (None, fs) else (Some e, fs)) = (r, fs')"
      using assms Inl by (simp add: mkdir_single_def)
    from exist_ok_cases[OF this] show ?thesis by (auto simp: grows_refl)
  qed
qed

lemma mkdir_single_grows:
  assumes "mkdir_single F ok p fs = (r, fs')"
  shows "grows p fs fs'" "r = None \<Longrightarrow> is_dir fs' p \<and> \<not> search_denied F p"
    "wf_fs fs \<Longrightarrow> wf_fs fs'" "r \<noteq> None \<Longrightarrow> fs' = fs"
  using mkdir_single_aux[OF assms] by blast+

lemma mkdir_grows_aux:
  "mkdir F ok p fs = (r, fs') \<Longrightarrow>
     grows p fs fs' \<and> (r = None \<longrightarrow> is_dir fs' p \<and> \<not> search_denied F p)
     \<and> (wf_fs fs \<longrightarrow> wf_fs fs') \<and> (r \<noteq> None \<longrightarrow> node_at fs' p = node_at fs p)"
proof (induction F ok p fs arbitrary: r fs' rule: mkdir.induct)
  case (1 F ok p fs)
  show ?case
  proof (cases "os_mkdir F p fs")
    case (Inr fs1)
    then have "r = None" "fs' = fs1" using "1.prems" by (simp_all add: mkdir.simps)
    then show ?thesis using os_mkdir_grows[OF Inr] os_mkdir_Inr(5)[OF Inr] by simp
  next
    case (Inl e)
    show ?thesis
    proof (cases "e = FileNotFoundError")
      case False
      show ?thesis
      proof (cases ok)
        case False
        then show ?thesis using "1.prems" Inl \<open>e \<noteq> FileNotFoundError\<close>
          by (auto simp: mkdir.simps grows_refl)
      next
        case True
        then have "(case Path_is_dir F fs p of
              Inl e' \<Rightarrow> (Some e', fs)
            | Inr d \<Rightarrow> if d then (None, fs) else (Some e, fs)) = (r, fs')"
          using "1.prems" Inl \<open>e \<noteq> FileNotFoundError\<close> by (simp add: mkdir.simps)
        from exist_ok_cases[OF this] show ?thesis by (auto simp: grows_refl)
      qed
    next
      case True
      show ?thesis
      proof (cases "p = []")
        case True
        then show ?thesis using "1.prems" Inl \<open>e = FileNotFoundError\<close>
          by (auto simp: mkdir.simps grows_refl)
      next
        case False
        obtain r1 fs1 where m: "mkdir F True (parent p) fs = (r1, fs1)" by fastforce
        from "1.IH"[OF Inl True False m]
        have ih: "grows (parent p) fs fs1" "r1 = None \<longrightarrow> is_dir fs1 (parent p)"
          "wf_fs fs \<longrightarrow> wf_fs fs1" by simp_all
        have g1: "grows p fs fs1" using ih(1) parent_prefix by (rule grows_prefix)
        have "\<not> prefix p (parent p)" using False
          by (metis parent_def append_butlast_last_id not_Cons_self2 prefix_order.antisym
              parent_prefix same_append_eq self_append_conv)
        then have same: "node_at fs1 p = node_at fs p"
          using ih(1) unfolding grows_def by blast
        show ?thesis
        proof (cases r1)
          case (Some e')
          then have "r = Some e'" "fs' = fs1"
            using "1.prems" Inl True False m by (simp_all add: mkdir.simps)
          then show ?thesis using g1 ih same by simp
        next
          case None
          then have s: "mkdir_single F ok p fs1 = (r, fs')"
            using "1.prems" Inl True False m by (simp add: mkdir.simps)
          from mkdir_single_grows[OF s] g1 ih same show ?thesis
            by (auto intro: grows_trans)
        qed
      qed
    qed
  qed
qed

lemma mkdir_grows: "mkdir F ok p fs = (r, fs') \<Longrightarrow> grows p fs fs'"
  and mkdir_None: "mkdir F ok p fs = (None, fs') \<Longrightarrow> is_dir fs' p"
  and mkdir_None_search: "mkdir F ok p fs = (None, fs') \<Longrightarrow> \<not> search_denied F p"
  and mkdir_wf: "mkdir F ok p fs = (r, fs') \<Longrightarrow> wf_fs fs \<Longrightarrow> wf_fs fs'"
  and mkdir_Some: "mkdir F ok p fs = (Some e, fs') \<Longrightarrow> node_at fs' p = node_at fs p"
  using mkdir_grows_aux by blast+

lemma mkdir_is_dir:
  "is_dir fs p \<Longrightarrow> mkdir F True p fs
     = (if search_denied F p then (Some PermissionError, fs) else (None, fs))"
  by (simp add: mkdir.simps os_mkdir_def path_exists_def is_dir_def Path_is_dir_def)

lemma dest_file_not_Nil [simp]: "dest_file F dst p \<noteq> []"
  by (simp add: dest_file_def)

lemma parent_dest_file [simp]: "parent (dest_file F dst p) = dest_path F dst p"
  by (simp add: dest_file_def parent_def)

lemma dest_path_neq_file [simp]: "dest_path F dst p \<noteq> dest_file F dst p"
  by (simp add: dest_file_def)

lemma open_wb_Inr:
  assumes "open_wb F fs q = Inr fs2"
  shows "fs2 = put q (File []) fs" "\<not> search_denied F q" "q \<noteq> []"
    "(node_at fs q = None \<and> is_dir fs (parent q)) \<or> is_file fs q"
  using assms
  by (auto simp: open_wb_def is_file_def node_at_def
      split: option.splits node.splits if_splits)

lemma open_rb_None:
  "open_rb F fs p = None \<Longrightarrow> is_file fs p \<and> \<not> search_denied F p \<and> \<not> open_read_denied F p"
  by (auto simp: open_rb_def is_file_def split: option.splits node.splits if_splits)

lemma write_all_cases:
  assumes "write_all F q data fs = (r, fs3)"
  shows "\<exists>d. fs3 = put q (File d) fs \<and> prefix d data \<and> (r = None \<longrightarrow> d = data)"
  using assms by (auto simp: write_all_def take_is_prefix split: option.splits if_splits)

lemma copy_start_summary:
  assumes "copy_file_start F p dst fs = (fs1, res)"
  shows "\<exists>r. mkdir F True (dest_path F dst p) fs = (r, fs1) \<and>
    ((\<exists>e. r = Some e \<and> res = Some (Inl e))
     \<or> (r = None \<and> search_denied F (dest_file F dst p) \<and> res = Some (Inl PermissionError))
     \<or> (r = None \<and> \<not> search_denied F (dest_file F dst p)
         \<and> path_exists fs1 (dest_file F dst p)
         \<and> res = Some (Inr (WARNING, AlreadyExists (name p) (dest_path F dst p))))
     \<or> (r = None \<and> \<not> search_denied F (dest_file F dst p)
         \<and> \<not> path_exists fs1 (dest_file F dst p) \<and> res = None))"
  using assms
  by (auto simp: copy_file_start_def Path_exists_def split: prod.splits option.splits if_splits)

lemma copy_rest_summary:
  assumes "copy_file_rest F p dst fs1 = (fs', res)"
  shows "(fs' = fs1 \<and> (\<exists>e. res = Inl e))
     \<or> (\<exists>c d. node_at fs1 p = Some (File c)
           \<and> prefix d (if p = dest_file F dst p then [] else c)
           \<and> ((node_at fs1 (dest_file F dst p) = None \<and> is_dir fs1 (dest_path F dst p))
               \<or> is_file fs1 (dest_file F dst p))
           \<and> \<not> search_denied F (dest_file F dst p)
           \<and> (\<forall>q. node_at fs' q
                  = (if q = dest_file F dst p then Some (File d) else node_at fs1 q))
           \<and> ((\<exists>e. res = Inl e)
               \<or> (d = (if p = dest_file F dst p then [] else c)
                   \<and> res = Inr (INFO, Copied (name p) (dest_path F dst p)))))"
proof (cases "open_rb F fs1 p")
  case (Some e)
  then show ?thesis using assms by (auto simp: copy_file_rest_def)
next
  case None
  from open_rb_None[OF None] obtain c where c: "node_at fs1 p = Some (File c)"
    by (auto simp: is_file_iff)
  let ?df = "dest_file F dst p"
  let ?c = "if p = ?df then [] else c"
  show ?thesis
  proof (cases "open_wb F fs1 ?df")
    case (Inl e)
    then show ?thesis using assms None by (auto simp: copy_file_rest_def)
  next
    case wb: (Inr fs2)
    note o = open_wb_Inr[OF wb]
    have pre: "(node_at fs1 ?df = None \<and> is_dir fs1 (dest_path F dst p)) \<or> is_file fs1 ?df"
      using o(4) by simp
    have n2: "node_at fs2 q = (if q = ?df then Some (File []) else node_at fs1 q)" for q
      using o(1) by (simp add: node_at_put)
    show ?thesis
    proof (cases "read_all F fs2 p")
      case (Inl e)
      then have "fs' = fs2" "res = Inl e"
        using assms None wb by (auto simp: copy_file_rest_def)
      then show ?thesis using c pre o(2) n2
        by (intro disjI2 exI[of _ c] exI[of _ "[]"]) auto
    next
      case rd: (Inr data)
      then have data: "data = ?c"
        using c n2[of p] by (auto simp: read_all_def split: if_splits)
      obtain r3 fs3 where w: "write_all F ?df data fs2 = (r3, fs3)" by fastforce
      from write_all_cases[OF w] obtain d where
        d: "fs3 = put ?df (File d) fs2" "prefix d data" "r3 = None \<longrightarrow> d = data"
        by blast
      have n: "\<forall>q. node_at fs3 q = (if q = ?df then Some (File d) else node_at fs1 q)"
        using d(1) n2 by (simp add: node_at_put)
      show ?thesis
      proof (cases r3)
        case None3: None
        then have "fs' = fs3" "res = Inr (INFO, Copied (name p) (dest_path F dst p))"
          using assms None wb rd w by (auto simp: copy_file_rest_def)
        then show ?thesis using c pre o(2) n d data None3
          by (intro disjI2 exI[of _ c] exI[of _ d]) auto
      next
        case (Some e)
        then have "fs' = fs3" "res = Inl e"
          using assms None wb rd w by (auto simp: copy_file_rest_def)
        then show ?thesis using c pre o(2) n d data
          by (intro disjI2 exI[of _ c] exI[of _ d]) auto
      qed
    qed
  qed
qed

lemma adds_refl: "adds dst fs fs"
  by (simp add: adds_def)

lemma adds_trans:
  assumes "adds dst fs fs1" "adds dst fs1 fs2"
  shows "adds dst fs fs2"
  unfolding adds_def
proof
  fix q
  let ?new = "\<lambda>a b. node_at a q = None \<and> node_at b q = Some Dir
      \<and> (prefix q dst \<or> (\<exists>e. q = dst @ [e]))"
  let ?file = "\<lambda>a b. (node_at a q = None \<or> is_file a q) \<and> is_file b q
      \<and> (\<exists>e n. q = dst @ [e, n])"
  from assms(1) have a: "node_at fs1 q = node_at fs q \<or> ?new fs fs1 \<or> ?file fs fs1"
    unfolding adds_def by blast
  from assms(2) have b: "node_at fs2 q = node_at fs1 q \<or> ?new fs1 fs2 \<or> ?file fs1 fs2"
    unfolding adds_def by blast
  have l: "\<not> (\<exists>e n. q = dst @ [e, n])" if "prefix q dst \<or> (\<exists>e. q = dst @ [e])"
    using that by (auto dest: prefix_length_le)
  from a b l show "node_at fs2 q = node_at fs q \<or> ?new fs fs2 \<or> ?file fs fs2"
    by (auto simp: is_file_iff)
qed

lemma grows_adds: "grows (dest_path F dst p) fs fs' \<Longrightarrow> adds dst fs fs'"
  unfolding grows_def adds_def dest_path_def by (metis prefix_snoc)

lemma grows_adds_dst: "grows dst fs fs' \<Longrightarrow> adds dst fs fs'"
  unfolding grows_def adds_def by blast

lemma adds_exists: "adds dst fs fs' \<Longrightarrow> path_exists fs q \<Longrightarrow> path_exists fs' q"
  unfolding adds_def path_exists_def is_file_iff by (metis option.distinct(1))

lemma adds_is_dir: "adds dst fs fs' \<Longrightarrow> is_dir fs q \<Longrightarrow> is_dir fs' q"
  unfolding adds_def is_dir_def is_file_iff
  by (metis node.distinct(1) option.distinct(1) option.inject)

lemma adds_is_file: "adds dst fs fs' \<Longrightarrow> is_file fs q \<Longrightarrow> is_file fs' q"
  unfolding adds_def is_file_iff by (metis option.distinct(1))

lemma adds_is_file_rev:
  "adds dst fs fs' \<Longrightarrow> path_exists fs q \<Longrightarrow> is_file fs' q \<Longrightarrow> is_file fs q"
  unfolding adds_def is_file_iff path_exists_def by metis

lemma adds_is_dir_rev:
  "adds dst fs fs' \<Longrightarrow> path_exists fs q \<Longrightarrow> is_dir fs' q \<Longrightarrow> is_dir fs q"
  unfolding adds_def is_file_iff path_exists_def is_dir_def
  by (metis node.distinct(1) option.inject)

lemma copy_start_grows:
  assumes "copy_file_start F p dst fs = (fs1, res)"
  shows "grows (dest_path F dst p) fs fs1" "wf_fs fs \<Longrightarrow> wf_fs fs1"
  using copy_start_summary[OF assms] mkdir_grows mkdir_wf by blast+

lemma copy_start_None:
  assumes "copy_file_start F p dst fs = (fs1, None)"
  shows "is_dir fs1 (dest_path F dst p)" "\<not> path_exists fs1 (dest_file F dst p)"
    "\<not> search_denied F (dest_path F dst p)" "\<not> search_denied F (dest_file F dst p)"
  using copy_start_summary[OF assms] mkdir_None mkdir_None_search by auto

lemma copy_rest_adds:
  assumes "copy_file_rest F p dst fs1 = (fs', res)"
  shows "adds dst fs1 fs'"
proof -
  from copy_rest_summary[OF assms] have
    "fs' = fs1 \<or> (\<exists>d. ((node_at fs1 (dest_file F dst p) = None)
               \<or> is_file fs1 (dest_file F dst p))
           \<and> (\<forall>q. node_at fs' q
                  = (if q = dest_file F dst p then Some (File d) else node_at fs1 q)))"
    by blast
  then show ?thesis
  proof
    assume "fs' = fs1" then show ?thesis by (simp add: adds_refl)
  next
    assume "\<exists>d. ((node_at fs1 (dest_file F dst p) = None)
               \<or> is_file fs1 (dest_file F dst p))
           \<and> (\<forall>q. node_at fs' q
                  = (if q = dest_file F dst p then Some (File d) else node_at fs1 q))"
    then obtain d where d: "node_at fs1 (dest_file F dst p) = None
        \<or> is_file fs1 (dest_file F dst p)"
      "\<And>q. node_at fs' q = (if q = dest_file F dst p then Some (File d) else node_at fs1 q)"
      by blast
    have e: "\<exists>e n. dest_file F dst p = dst @ [e, n]"
      by (simp add: dest_file_def dest_path_def)
    show ?thesis unfolding adds_def
    proof
      fix q
      show "node_at fs' q = node_at fs1 q
        \<or> (node_at fs1 q = None \<and> node_at fs' q = Some Dir
            \<and> (prefix q dst \<or> (\<exists>e. q = dst @ [e])))
        \<or> ((node_at fs1 q = None \<or> is_file fs1 q) \<and> is_file fs' q
            \<and> (\<exists>e n. q = dst @ [e, n]))"
        using d e by (cases "q = dest_file F dst p") (auto simp: is_file_iff)
    qed
  qed
qed

lemma copy_rest_wf:
  assumes "copy_file_rest F p dst fs1 = (fs', res)" "wf_fs fs1"
  shows "wf_fs fs'"
proof -
  let ?df = "dest_file F dst p"
  from copy_rest_summary[OF assms(1)] have
    "fs' = fs1 \<or> (\<exists>d. ((node_at fs1 ?df = None \<and> is_dir fs1 (dest_path F dst p))
               \<or> is_file fs1 ?df)
           \<and> (\<forall>q. node_at fs' q = (if q = ?df then Some (File d) else node_at fs1 q)))"
    by blast
  then show ?thesis
  proof
    assume "fs' = fs1" then show ?thesis using assms(2) by simp
  next
    assume "\<exists>d. ((node_at fs1 ?df = None \<and> is_dir fs1 (dest_path F dst p))
               \<or> is_file fs1 ?df)
           \<and> (\<forall>q. node_at fs' q = (if q = ?df then Some (File d) else node_at fs1 q))"
    then obtain d where d: "(node_at fs1 ?df = None \<and> is_dir fs1 (dest_path F dst p))
               \<or> is_file fs1 ?df"
      and n: "\<And>q. node_at fs' q = (if q = ?df then Some (File d) else node_at fs1 q)"
      by blast
    have "path_exists fs1 ?df" if "is_file fs1 ?df"
      using that by (auto simp: is_file_iff path_exists_def)
    then have dp: "is_dir fs1 (dest_path F dst p)"
      using d assms(2) dest_file_not_Nil[of F dst p] parent_dest_file[of F dst p]
      unfolding wf_fs_def by metis
    show ?thesis unfolding wf_fs_def
    proof (intro allI impI)
      fix q assume q: "q \<noteq> [] \<and> path_exists fs' q"
      show "is_dir fs' (parent q)"
      proof (cases "q = ?df")
        case True
        then show ?thesis using dp by (simp add: is_dir_def n)
      next
        case False
        then have "path_exists fs1 q" using q by (simp add: path_exists_def n)
        then have "is_dir fs1 (parent q)" using assms(2) q by (simp add: wf_fs_def)
        then show ?thesis using d by (auto simp: is_dir_def n is_file_iff)
      qed
    qed
  qed
qed

lemma copy_body_cases:
  assumes "copy_file_body F p dst fs = (fs', res)"
  obtains (early) r where "copy_file_start F p dst fs = (fs', Some r)" "res = r"
  | (late) fs1 where "copy_file_start F p dst fs = (fs1, None)"
      "copy_file_rest F p dst fs1 = (fs', res)"
  using assms by (auto simp: copy_file_body_def split: prod.splits option.splits)

lemma copy_body_adds:
  assumes "copy_file_body F p dst fs = (fs', res)"
  shows "adds dst fs fs'"
  using assms
proof (cases rule: copy_body_cases)
  case (early r)
  then show ?thesis using copy_start_grows(1) grows_adds by blast
next
  case (late fs1)
  have "adds dst fs fs1" using late(1) copy_start_grows(1) grows_adds by blast
  then show ?thesis using copy_rest_adds[OF late(2)] adds_trans by blast
qed

lemma copy_body_wf:
  assumes "copy_file_body F p dst fs = (fs', res)" "wf_fs fs"
  shows "wf_fs fs'"
  using assms(1)
proof (cases rule: copy_body_cases)
  case (early r)
  then show ?thesis using copy_start_grows(2) assms(2) by blast
next
  case (late fs1)
  have "wf_fs fs1" using late(1) copy_start_grows(2) assms(2) by blast
  then show ?thesis using copy_rest_wf[OF late(2)] by blast
qed

lemma finish_files [simp]: "files (finish p w (fs', r)) = fs'"
  by (auto simp: finish_def split: sum.splits)

lemma finish_logs: "\<exists>line. logs (finish p w (fs', r)) = logs w @ [line]"
  by (auto simp: finish_def split: sum.splits)

lemma copy_file_files:
  "files (copy_file F p dst w) = fst (copy_file_body F p dst (files w))"
  by (metis copy_file_def finish_files prod.collapse)

lemma copy_file_split:
  "copy_file F p dst w
     = (case copy_file_first F p dst w of
          (w1, suspended) \<Rightarrow> if suspended then copy_file_resume F p dst w1 else w1)"
  by (auto simp: copy_file_def copy_file_first_def copy_file_resume_def copy_file_body_def
      finish_def split: prod.splits option.splits sum.splits)

section \<open>The copier on one file\<close>

lemmas fs_eval = copy_file_def copy_file_body_def copy_file_start_def copy_file_rest_def
  finish_def dest_path_def dest_file_def name_def
  mkdir.simps mkdir_single_def os_mkdir_def path_exists_def node_at_def is_dir_def is_file_def
  Path_exists_def Path_is_dir_def Path_is_file_def
  parent_def put_def open_rb_def open_wb_def read_all_def write_all_def missing_error_def
  no_faults_def iterdir_def children_def log_line_def

lemma wf_collide: "wf_fs (files w_collide)"
  by (auto simp: wf_fs_def w_collide_def path_exists_def is_dir_def node_at_def parent_def split: if_splits)

lemma copy_file_skip:
  assumes "wf_fs (files w)" "path_exists (files w) (dest_file F dst p)"
  shows "copy_file F p dst w =
           w\<lparr> logs := logs w @
             [if search_denied F (dest_path F dst p) \<or> search_denied F (dest_file F dst p)
              then (ERROR, ErrorCopying p PermissionError)
              else (WARNING, AlreadyExists (name p) (dest_path F dst p))] \<rparr>"
proof -
  have "is_dir (files w) (parent (dest_file F dst p))"
    using assms dest_file_not_Nil unfolding wf_fs_def by blast
  then have "is_dir (files w) (dest_path F dst p)" by simp
  then have "mkdir F True (dest_path F dst p) (files w)
      = (if search_denied F (dest_path F dst p) then (Some PermissionError, files w)
         else (None, files w))"
    by (rule mkdir_is_dir)
  then show ?thesis using assms(2)
    by (cases w) (simp add: copy_file_def copy_file_body_def copy_file_start_def
        Path_exists_def finish_def)
qed

text \<open>
  C4, as stated, fails: when the bucket directory refuses search, \<open>exists()\<close> at line 70
  raises \<open>PermissionError\<close>. The file of that name exists in the subfolder, and the
  copier logs an error, not the warning.
\<close>

theorem C4_closed_bucket_counterexample:
  "dest_file bucket_closed [''d''] [''s'', ''a.txt''] = [''d'', ''txt'', ''a.txt'']
   \<and> path_exists (files w_collide) [''d'', ''txt'', ''a.txt'']
   \<and> copy_file bucket_closed [''s'', ''a.txt''] [''d''] w_collide =
       w_collide\<lparr> logs := [(ERROR, ErrorCopying [''s'', ''a.txt''] PermissionError)] \<rparr>"
  by (simp add: fs_eval ext_a w_collide_def bucket_closed_def)

text \<open>
  C4, amended: when a file of the same name already exists in the destination subfolder
  of a well formed file system, the copier writes nothing, so the existing file keeps its
  content, and logs one line: the warning that names the file and the subfolder when the
  status of the subfolder and of the file can be read, and an error when \<open>is_dir()\<close>
  inside \<open>mkdir\<close> or \<open>exists()\<close> raises \<open>PermissionError\<close>.
\<close>

theorem C4_collision_skips:
  assumes "wf_fs (files w)" "path_exists (files w) (dest_file F dst p)"
  shows "copy_file F p dst w =
           w\<lparr> logs := logs w @
             [if search_denied F (dest_path F dst p) \<or> search_denied F (dest_file F dst p)
              then (ERROR, ErrorCopying p PermissionError)
              else (WARNING, AlreadyExists (name p) (dest_path F dst p))] \<rparr>"
  using assms by (rule copy_file_skip)

theorem C4_collision_skips_witness:
  "wf_fs (files w_collide) \<and> path_exists (files w_collide) [''d'', ''txt'', ''a.txt'']
   \<and> copy_file no_faults [''s'', ''a.txt''] [''d''] w_collide =
       w_collide\<lparr> logs := [(WARNING, AlreadyExists ''a.txt'' [''d'', ''txt''])] \<rparr>"
proof -
  have d: "dest_file no_faults [''d''] [''s'', ''a.txt''] = [''d'', ''txt'', ''a.txt'']"
      "dest_path no_faults [''d''] [''s'', ''a.txt''] = [''d'', ''txt'']"
      "name [''s'', ''a.txt''] = ''a.txt''"
    by (simp_all add: dest_file_def dest_path_def name_def ext_a)
  have e: "path_exists (files w_collide) [''d'', ''txt'', ''a.txt'']"
    by (simp add: w_collide_def path_exists_def node_at_def)
  have s: "\<not> search_denied no_faults q" for q by (simp add: no_faults_def)
  from C4_collision_skips[OF wf_collide, of no_faults "[''d'']" "[''s'', ''a.txt'']"] e d s
  show ?thesis using wf_collide by (simp add: w_collide_def)
qed




text \<open>
  C2, as stated, fails: when the read fails after the destination has been opened for
  writing, an empty file is left at the destination path, which did not exist before.
\<close>

theorem C2_empty_file_counterexample:
  "node_at (files w_fresh) [''d'', ''txt'', ''a.txt''] = None
  \<and> node_at (files (copy_file read_fails [''s'', ''a.txt''] [''d''] w_fresh))
       [''d'', ''txt'', ''a.txt''] = Some (File [])
  \<and> logs (copy_file read_fails [''s'', ''a.txt''] [''d''] w_fresh)
      = [(ERROR, ErrorCopying [''s'', ''a.txt''] OSError)]"
  by (simp add: fs_eval ext_a w_fresh_def read_fails_def)

text \<open>
  C2, amended: when the copy of a file fails, the error is logged and the destination path
  is either unchanged, or it did not exist before and now holds a prefix of the bytes of
  the source file (empty when the read failed, truncated when the write failed partway).
\<close>

theorem C2_failure_leaves_prefix:
  assumes "copy_file_body F p dst fs = (fs', Inl e)"
  shows "(node_at fs' (dest_file F dst p) = node_at fs (dest_file F dst p)
          \<or> (node_at fs (dest_file F dst p) = None
              \<and> (\<exists>c d. node_at fs p = Some (File c) \<and> prefix d c
                    \<and> node_at fs' (dest_file F dst p) = Some (File d))))
       \<and> copy_file F p dst \<lparr> files = fs, logs = l \<rparr>
           = \<lparr> files = fs', logs = l @ [(ERROR, ErrorCopying p e)] \<rparr>"
proof -
  let ?df = "dest_file F dst p"
  have np: "\<not> prefix ?df (dest_path F dst p)"
    by (simp add: dest_file_def)
  have "node_at fs' ?df = node_at fs ?df
          \<or> (node_at fs ?df = None
              \<and> (\<exists>c d. node_at fs p = Some (File c) \<and> prefix d c
                    \<and> node_at fs' ?df = Some (File d)))"
    using assms
  proof (cases rule: copy_body_cases)
    case (early r)
    have "grows (dest_path F dst p) fs fs'" using early(1) by (rule copy_start_grows)
    then show ?thesis using np unfolding grows_def by blast
  next
    case (late fs1)
    have g: "grows (dest_path F dst p) fs fs1" using late(1) by (rule copy_start_grows)
    have same: "node_at fs1 ?df = node_at fs ?df"
      using g np unfolding grows_def by blast
    have nex: "node_at fs1 ?df = None"
      using copy_start_None(2)[OF late(1)] by (simp add: path_exists_def)
    have src: "node_at fs p = Some (File c)" if "node_at fs1 p = Some (File c)" for c
      using g that unfolding grows_def by (metis node.distinct(1) option.inject)
    from copy_rest_summary[OF late(2)] have
      "fs' = fs1 \<or> (\<exists>c d. node_at fs1 p = Some (File c)
           \<and> prefix d (if p = ?df then [] else c) \<and> node_at fs' ?df = Some (File d))"
      by auto
    then show ?thesis
    proof
      assume "fs' = fs1" then show ?thesis using same by simp
    next
      assume "\<exists>c d. node_at fs1 p = Some (File c)
           \<and> prefix d (if p = ?df then [] else c) \<and> node_at fs' ?df = Some (File d)"
      then obtain c d where cd: "node_at fs1 p = Some (File c)"
        "prefix d (if p = ?df then [] else c)" "node_at fs' ?df = Some (File d)" by blast
      have "p \<noteq> ?df" using cd(1) nex by auto
      then show ?thesis using cd src same nex by auto
    qed
  qed
  moreover have "copy_file F p dst \<lparr> files = fs, logs = l \<rparr>
           = \<lparr> files = fs', logs = l @ [(ERROR, ErrorCopying p e)] \<rparr>"
    using assms by (simp add: copy_file_def finish_def)
  ultimately show ?thesis by blast
qed

theorem C2_failure_leaves_prefix_witness:
  "copy_file_body disk_full [''s'', ''a.txt''] [''d''] (files w_fresh)
     = ([([''d''], Dir), ([''s''], Dir), ([''s'', ''a.txt''], File ''hello''),
         ([''d'', ''txt''], Dir), ([''d'', ''txt'', ''a.txt''], File ''he'')], Inl OSError)
  \<and> node_at (files w_fresh) [''s'', ''a.txt''] = Some (File ''hello'')
  \<and> copy_file disk_full [''s'', ''a.txt''] [''d''] \<lparr> files = files w_fresh, logs = [] \<rparr>
     = \<lparr> files = [([''d''], Dir), ([''s''], Dir), ([''s'', ''a.txt''], File ''hello''),
         ([''d'', ''txt''], Dir), ([''d'', ''txt'', ''a.txt''], File ''he'')],
         logs = [(ERROR, ErrorCopying [''s'', ''a.txt''] OSError)] \<rparr>"
proof -
  have b: "copy_file_body disk_full [''s'', ''a.txt''] [''d''] (files w_fresh)
     = ([([''d''], Dir), ([''s''], Dir), ([''s'', ''a.txt''], File ''hello''),
         ([''d'', ''txt''], Dir), ([''d'', ''txt'', ''a.txt''], File ''he'')], Inl OSError)"
    by (simp add: fs_eval ext_a w_fresh_def disk_full_def)
  have n: "node_at (files w_fresh) [''s'', ''a.txt''] = Some (File ''hello'')"
    by (simp add: node_at_def w_fresh_def)
  from C2_failure_leaves_prefix[OF b, of "[]"] b n show ?thesis by simp
qed

section \<open>The walker returns\<close>

lemma le_world_refl: "le_world dst w w"
  by (simp add: le_world_def adds_refl)

lemma le_world_trans: "le_world dst w w1 \<Longrightarrow> le_world dst w1 w2 \<Longrightarrow> le_world dst w w2"
  unfolding le_world_def using adds_trans by fastforce

lemma le_world_log: "le_world dst w (log_line l m w)"
  by (simp add: le_world_def log_line_def adds_refl)

lemma finish_le_world: "adds dst (files w) fs' \<Longrightarrow> le_world dst w (finish p w (fs', r))"
  by (auto simp: le_world_def finish_def split: sum.splits)

lemma copy_first_le:
  assumes "copy_file_first F p dst w = (w1, s)"
  shows "le_world dst w w1" "wf_fs (files w) \<Longrightarrow> wf_fs (files w1)"
proof -
  obtain fs1 res where c: "copy_file_start F p dst (files w) = (fs1, res)" by fastforce
  have a: "adds dst (files w) fs1" using copy_start_grows(1)[OF c] by (rule grows_adds)
  have f: "files w1 = fs1" using assms c
    by (auto simp: copy_file_first_def split: option.splits)
  show "le_world dst w w1"
  proof (cases res)
    case None
    then show ?thesis using assms c a by (auto simp: copy_file_first_def le_world_def)
  next
    case (Some r)
    then show ?thesis using assms c finish_le_world[OF a]
      by (auto simp: copy_file_first_def)
  qed
  show "wf_fs (files w1)" if "wf_fs (files w)"
    using f copy_start_grows(2)[OF c that] by simp
qed

lemma copy_resume_le:
  shows "le_world dst w (copy_file_resume F p dst w)"
    "wf_fs (files w) \<Longrightarrow> wf_fs (files (copy_file_resume F p dst w))"
proof -
  obtain fs' res where c: "copy_file_rest F p dst (files w) = (fs', res)" by fastforce
  show "le_world dst w (copy_file_resume F p dst w)"
    using c copy_rest_adds[OF c] finish_le_world by (simp add: copy_file_resume_def)
  show "wf_fs (files (copy_file_resume F p dst w))" if "wf_fs (files w)"
    using c copy_rest_wf[OF c that] by (simp add: copy_file_resume_def)
qed

lemma read_folder_first_le:
  assumes "read_folder_first F q w = (w1, ts)"
  shows "files w1 = files w" "prefix (logs w) (logs w1)" "le_world dst w w1"
proof -
  show "files w1 = files w" "prefix (logs w) (logs w1)"
    using assms by (auto simp: read_folder_first_def split: sum.splits)
  then show "le_world dst w w1" by (simp add: le_world_def adds_refl)
qed

lemma run_ready_le:
  "run_ready F dst ts w = (w', created, pending) \<Longrightarrow>
     le_world dst w w' \<and> (wf_fs (files w) \<longrightarrow> wf_fs (files w'))"
proof (induction F dst ts w arbitrary: w' created pending rule: run_ready.induct)
  case (1 F dst w)
  then show ?case by (simp add: le_world_refl)
next
  case (2 F dst item tasks w)
  obtain w1 s where c: "copy_file_first F item dst w = (w1, s)" by fastforce
  obtain w2 cr pd where r: "run_ready F dst tasks w1 = (w2, cr, pd)"
    by (metis prod_cases3)
  have "w' = w2" using "2.prems" c r by simp
  with "2.IH"[OF c[symmetric] r] copy_first_le[OF c] show ?case
    by (auto intro: le_world_trans)
next
  case (3 F dst item tasks w)
  obtain w1 new where c: "read_folder_first F item w = (w1, new)" by fastforce
  obtain w2 cr pd where r: "run_ready F dst tasks w1 = (w2, cr, pd)"
    by (metis prod_cases3)
  have "w' = w2" using "3.prems" c r by simp
  with "3.IH"[OF c[symmetric] r] read_folder_first_le[OF c] show ?case
    by (auto intro: le_world_trans)
qed

lemma run_loop_le:
  "run_loop n F dst ts w = Some (w', pending) \<Longrightarrow>
     le_world dst w w' \<and> (wf_fs (files w) \<longrightarrow> wf_fs (files w'))"
proof (induction n F dst ts w arbitrary: w' pending rule: run_loop.induct)
  case (1 n F dst w)
  then show ?case by (simp add: le_world_refl)
next
  case (2 F dst t tasks w)
  then show ?case by simp
next
  case (3 n F dst t tasks w)
  obtain w1 cr pd where r: "run_ready F dst (t # tasks) w = (w1, cr, pd)"
    by (metis prod_cases3)
  from "3.prems" r obtain pd' where l: "run_loop n F dst cr w1 = Some (w', pd')"
    by (auto split: option.splits)
  from "3.IH"[OF r[symmetric] refl l] run_ready_le[OF r] show ?case
    by (auto intro: le_world_trans)
qed

lemma resume_all_le:
  "le_world dst w (resume_all F dst ps w)
   \<and> (wf_fs (files w) \<longrightarrow> wf_fs (files (resume_all F dst ps w)))"
proof (induction ps arbitrary: w)
  case Nil
  then show ?case by (simp add: le_world_refl)
next
  case (Cons p ps)
  from Cons[of "copy_file_resume F p dst w"]
    copy_resume_le[where dst=dst and w=w and F=F and p=p]
  show ?case by (auto intro: le_world_trans)
qed

lemma gather_le:
  assumes "gather n F dst ts w = Some w'"
  shows "le_world dst w w'" "wf_fs (files w) \<Longrightarrow> wf_fs (files w')"
proof -
  from assms obtain w1 pd where l: "run_loop n F dst ts w = Some (w1, pd)"
    and w': "w' = resume_all F dst pd w1"
    by (auto simp: gather_def split: option.splits)
  from run_loop_le[OF l] resume_all_le[of dst w1 F pd] w'
  show "le_world dst w w'" "wf_fs (files w) \<Longrightarrow> wf_fs (files w')"
    by (auto intro: le_world_trans)
qed

lemma walk_le_world:
  assumes "read_folder n F src dst w = Some w'"
  shows "le_world dst w w'" "wf_fs (files w) \<Longrightarrow> wf_fs (files w')"
  using assms gather_le unfolding read_folder_def by blast+

lemma depth_le_ex: "\<exists>k. depth_le k fs \<and> m \<le> k"
proof -
  let ?k = "sum_list (map (length \<circ> fst) fs) + m"
  have "length q \<le> ?k" if "path_exists fs q" for q
  proof (cases "q = []")
    case True then show ?thesis by simp
  next
    case False
    then have "map_of fs q \<noteq> None" using that by (simp add: path_exists_def node_at_def)
    then have "q \<in> fst ` set fs" by (simp add: map_of_eq_None_iff)
    then have "length q \<in> set (map (length \<circ> fst) fs)" by auto
    then have "length q \<le> sum_list (map (length \<circ> fst) fs)" using member_le_sum_list by blast
    then show ?thesis by simp
  qed
  then show ?thesis unfolding depth_le_def by (intro exI[of _ ?k]) simp
qed

lemma adds_depth:
  assumes "adds dst fs fs'" "depth_le k fs" "length dst + 2 \<le> k"
  shows "depth_le k fs'"
  unfolding depth_le_def path_exists_def
proof (intro allI impI)
  fix q assume q: "node_at fs' q \<noteq> None"
  from assms(1) have "node_at fs' q = node_at fs q
        \<or> (prefix q dst \<or> (\<exists>e. q = dst @ [e])) \<or> (\<exists>e n. q = dst @ [e, n])"
    unfolding adds_def by blast
  then show "length q \<le> k"
  proof (elim disjE)
    assume "node_at fs' q = node_at fs q"
    then show ?thesis using q assms(2) by (simp add: depth_le_def path_exists_def)
  next
    assume "prefix q dst"
    then have "length q \<le> length dst" by (rule prefix_length_le)
    then show ?thesis using assms(3) by simp
  next
    assume "\<exists>e. q = dst @ [e]" then show ?thesis using assms(3) by auto
  next
    assume "\<exists>e n. q = dst @ [e, n]" then show ?thesis using assms(3) by auto
  qed
qed

lemma children_iff:
  "p \<in> set (children fs src) \<longleftrightarrow> p \<noteq> [] \<and> parent p = src \<and> path_exists fs p"
proof -
  have "map_of fs p \<noteq> None \<longleftrightarrow> p \<in> fst ` set fs"
    by (simp add: map_of_eq_None_iff)
  then show ?thesis
    unfolding children_def path_exists_def node_at_def by auto
qed

lemma children_length: "p \<in> set (children fs src) \<Longrightarrow> length p = Suc (length src)"
  by (auto simp: children_iff parent_def)

lemma schedule_Inr:
  "schedule F fs items = Inr ts \<Longrightarrow>
     (\<forall>q \<in> set items. \<not> search_denied F q)
     \<and> (\<forall>q. CopyFile q \<in> set ts \<longleftrightarrow> q \<in> set items \<and> is_file fs q)
     \<and> (\<forall>q. ReadFolder q \<in> set ts \<longleftrightarrow> q \<in> set items \<and> is_dir fs q)"
proof (induction items arbitrary: ts)
  case Nil
  then show ?case by auto
next
  case (Cons item items)
  have nd: "\<not> (is_file fs q \<and> is_dir fs q)" for q
    by (auto simp: is_file_iff is_dir_def)
  from Cons.prems have s: "\<not> search_denied F item"
    by (auto simp: Path_is_file_def split: if_splits)
  from Cons.prems s obtain ts' where t: "schedule F fs items = Inr ts'"
    and ts: "ts = (if is_file fs item then CopyFile item # ts'
                   else if is_dir fs item then ReadFolder item # ts' else ts')"
    by (cases "schedule F fs items")
      (auto simp: Path_is_file_def Path_is_dir_def split: if_splits)
  from Cons.IH[OF t] s ts nd show ?case by auto
qed

lemma schedule_Inl:
  "schedule F fs items = Inl e \<Longrightarrow> e = PermissionError \<and> (\<exists>q \<in> set items. search_denied F q)"
proof (induction items)
  case Nil
  then show ?case by simp
next
  case (Cons item items)
  then show ?case
    by (cases "schedule F fs items")
      (auto simp: Path_is_file_def Path_is_dir_def split: if_splits)
qed

lemma schedule_denied:
  "q \<in> set items \<Longrightarrow> search_denied F q \<Longrightarrow> schedule F fs items = Inl PermissionError"
  using schedule_Inr schedule_Inl by (cases "schedule F fs items") blast+

lemma iterdir_Inr:
  "iterdir F fs p = Inr items \<Longrightarrow>
     items = children fs p \<and> is_dir fs p \<and> \<not> list_denied F p \<and> \<not> search_denied F p"
  by (auto simp: iterdir_def is_dir_def split: option.splits node.splits if_splits)

lemma read_folder_first_tasks:
  assumes "read_folder_first F q w = (w1, ts)" "t \<in> set ts"
  shows "task_path t \<in> set (children (files w) q)" "\<not> search_denied F (task_path t)"
    "t = (if is_file (files w) (task_path t) then CopyFile (task_path t)
          else ReadFolder (task_path t))"
    "is_file (files w) (task_path t) \<or> is_dir (files w) (task_path t)"
proof -
  from assms obtain items where i: "iterdir F (files w) q = Inr items"
    and s: "schedule F (files w) items = Inr ts"
    by (auto simp: read_folder_first_def split: sum.splits)
  have it: "items = children (files w) q" using iterdir_Inr[OF i] by simp
  note sc = schedule_Inr[OF s]
  have nd: "\<not> (is_file (files w) p \<and> is_dir (files w) p)" for p
    by (auto simp: is_file_iff is_dir_def)
  have m: "task_path t \<in> set items
      \<and> t = (if is_file (files w) (task_path t) then CopyFile (task_path t)
          else ReadFolder (task_path t))
      \<and> (is_file (files w) (task_path t) \<or> is_dir (files w) (task_path t))"
  proof (cases t)
    case (CopyFile p)
    then have "p \<in> set items \<and> is_file (files w) p" using assms(2) sc by blast
    then show ?thesis using CopyFile by simp
  next
    case (ReadFolder p)
    then have "p \<in> set items \<and> is_dir (files w) p" using assms(2) sc by blast
    then show ?thesis using ReadFolder nd[of p] by auto
  qed
  show "task_path t \<in> set (children (files w) q)" using m it by simp
  show "\<not> search_denied F (task_path t)" using m sc by blast
  show "t = (if is_file (files w) (task_path t) then CopyFile (task_path t)
          else ReadFolder (task_path t))" using m by blast
  show "is_file (files w) (task_path t) \<or> is_dir (files w) (task_path t)" using m by blast
qed

lemma run_ready_created:
  "run_ready F dst ts w = (w', created, pending) \<Longrightarrow> t \<in> set created \<Longrightarrow>
     path_exists (files w') (task_path t)
     \<and> (\<exists>q. ReadFolder q \<in> set ts \<and> length (task_path t) = Suc (length q))"
proof (induction F dst ts w arbitrary: w' created pending rule: run_ready.induct)
  case (1 F dst w)
  then show ?case by simp
next
  case (2 F dst item tasks w)
  obtain w1 s where c: "copy_file_first F item dst w = (w1, s)" by fastforce
  obtain w2 cr pd where r: "run_ready F dst tasks w1 = (w2, cr, pd)"
    by (metis prod_cases3)
  have "w' = w2" "created = cr" using "2.prems" c r by simp_all
  with "2.IH"[OF c[symmetric] r] "2.prems"(2) show ?case by auto
next
  case (3 F dst item tasks w)
  obtain w1 new where c: "read_folder_first F item w = (w1, new)" by fastforce
  obtain w2 cr pd where r: "run_ready F dst tasks w1 = (w2, cr, pd)"
    by (metis prod_cases3)
  have e: "w' = w2" "created = new @ cr" using "3.prems" c r by simp_all
  show ?case
  proof (cases "t \<in> set new")
    case True
    note f = read_folder_first_tasks(1)[OF c True]
    have "path_exists (files w1) (task_path t)"
      using f read_folder_first_le(1)[OF c] by (simp add: children_iff)
    then have "path_exists (files w') (task_path t)"
      using run_ready_le[OF r] e adds_exists unfolding le_world_def by blast
    then show ?thesis using children_length[OF f] by auto
  next
    case False
    then have "t \<in> set cr" using "3.prems"(2) e by simp
    with "3.IH"[OF c[symmetric] r] e show ?thesis by auto
  qed
qed

lemma run_loop_returns:
  "depth_le k (files w) \<Longrightarrow> length dst + 2 \<le> k
     \<Longrightarrow> (\<forall>t \<in> set ts. k < length (task_path t) + n \<and> 0 < n)
     \<Longrightarrow> \<exists>r. run_loop n F dst ts w = Some r"
proof (induction n F dst ts w rule: run_loop.induct)
  case (1 n F dst w)
  then show ?case by simp
next
  case (2 F dst t tasks w)
  then show ?case by fastforce
next
  case (3 n F dst t tasks w)
  obtain w1 cr pd where r: "run_ready F dst (t # tasks) w = (w1, cr, pd)"
    by (metis prod_cases3)
  have d: "depth_le k (files w1)"
    using run_ready_le[OF r] "3.prems"(1,2) adds_depth unfolding le_world_def by blast
  have "k < length (task_path t') + n \<and> 0 < n" if "t' \<in> set cr" for t'
  proof -
    from run_ready_created[OF r that] obtain q where
      q: "path_exists (files w1) (task_path t')" "ReadFolder q \<in> set (t # tasks)"
        "length (task_path t') = Suc (length q)" by blast
    have "length (task_path t') \<le> k" using q(1) d by (simp add: depth_le_def)
    moreover have "k < length q + Suc n" using "3.prems"(3) q(2) by fastforce
    ultimately show ?thesis using q(3) by simp
  qed
  with "3.IH"[OF r[symmetric] refl d "3.prems"(2)] r show ?case
    by (auto split: option.splits)
qed

lemma read_folder_Suc:
  "read_folder (Suc n) F src dst w
     = (case read_folder_first F src w of (w1, ts) \<Rightarrow> gather n F dst ts w1)"
  by (auto simp: read_folder_def gather_def split: prod.splits option.splits)

lemma gather_Nil [simp]: "gather n F dst [] w = Some w"
  by (simp add: gather_def)

lemma walk_returns:
  assumes "depth_le k (files w)" "length dst + 2 \<le> k" "k < n"
  shows "\<exists>w'. read_folder n F src dst w = Some w'"
proof -
  have "\<forall>t \<in> set [ReadFolder src]. k < length (task_path t) + n \<and> 0 < n"
    using assms(3) by simp
  from run_loop_returns[OF assms(1,2) this] show ?thesis
    by (auto simp: read_folder_def gather_def split: option.splits)
qed

text \<open>
  C5: the walker returns for every bound from some \<open>N\<close> on, with the log extended; an
  exception of the body of the copier becomes one error line and the copier returns; an
  exception of the listing of a directory, or of \<open>is_file\<close> or \<open>is_dir\<close> on one of its
  entries, becomes one error line and the walker returns.
\<close>

theorem C5_tasks_return:
  "(\<exists>N. \<forall>n\<ge>N. \<exists>w'. read_folder n F src dst w = Some w' \<and> prefix (logs w) (logs w'))
   \<and> (\<forall>fs' e. copy_file_body F p dst (files w) = (fs', Inl e) \<longrightarrow>
         copy_file F p dst w = \<lparr> files = fs', logs = logs w @ [(ERROR, ErrorCopying p e)] \<rparr>)
   \<and> (\<forall>e n. iterdir F (files w) src = Inl e \<longrightarrow>
         read_folder (Suc n) F src dst w
           = Some (w\<lparr> logs := logs w @ [(ERROR, ErrorReading src e)] \<rparr>))
   \<and> (\<forall>items e n. iterdir F (files w) src = Inr items
           \<and> schedule F (files w) items = Inl e \<longrightarrow>
         read_folder (Suc n) F src dst w
           = Some (w\<lparr> logs := logs w @ [(ERROR, ErrorReading src e)] \<rparr>))"
proof -
  obtain k where k: "depth_le k (files w)" "length dst + 2 \<le> k"
    using depth_le_ex by blast
  have "\<exists>w'. read_folder n F src dst w = Some w' \<and> prefix (logs w) (logs w')" if "Suc k \<le> n" for n
  proof -
    from that have "k < n" by simp
    from walk_returns[OF k this] obtain w' where "read_folder n F src dst w = Some w'" by blast
    then show ?thesis using walk_le_world(1) unfolding le_world_def by blast
  qed
  then have "\<exists>N. \<forall>n\<ge>N. \<exists>w'. read_folder n F src dst w = Some w' \<and> prefix (logs w) (logs w')"
    by blast
  then show ?thesis
    by (auto simp: copy_file_def finish_def read_folder_Suc read_folder_first_def)
qed

theorem C5_tasks_return_witness:
  "(\<exists>n w'. read_folder n read_fails [''s''] [''d''] w_fresh = Some w')
   \<and> copy_file read_fails [''s'', ''a.txt''] [''d''] w_fresh
       = \<lparr> files = [([''d''], Dir), ([''s''], Dir), ([''s'', ''a.txt''], File ''hello''),
                     ([''d'', ''txt''], Dir), ([''d'', ''txt'', ''a.txt''], File [])],
           logs = [(ERROR, ErrorCopying [''s'', ''a.txt''] OSError)] \<rparr>
   \<and> read_folder (Suc 0) read_fails [''s'', ''a.txt''] [''d''] w_fresh
       = Some (w_fresh\<lparr> logs := [(ERROR, ErrorReading [''s'', ''a.txt''] NotADirectoryError)] \<rparr>)
   \<and> read_folder (Suc 0) source_closed [''s''] [''d''] w_fresh
       = Some (w_fresh\<lparr> logs := [(ERROR, ErrorReading [''s''] PermissionError)] \<rparr>)"
proof -
  note t = C5_tasks_return[of read_fails "[''s'']" "[''d'']" w_fresh "[''s'', ''a.txt'']"]
  from t obtain N where
    "\<forall>n\<ge>N. \<exists>w'. read_folder n read_fails [''s''] [''d''] w_fresh = Some w'
        \<and> prefix (logs w_fresh) (logs w')" by blast
  then have a: "\<exists>n w'. read_folder n read_fails [''s''] [''d''] w_fresh = Some w'" by blast
  have b: "copy_file_body read_fails [''s'', ''a.txt''] [''d''] (files w_fresh)
     = ([([''d''], Dir), ([''s''], Dir), ([''s'', ''a.txt''], File ''hello''),
         ([''d'', ''txt''], Dir), ([''d'', ''txt'', ''a.txt''], File [])], Inl OSError)"
    by (simp add: fs_eval ext_a w_fresh_def read_fails_def)
  have l: "logs w_fresh = []" by (simp add: w_fresh_def)
  from t b l have c: "copy_file read_fails [''s'', ''a.txt''] [''d''] w_fresh
       = \<lparr> files = [([''d''], Dir), ([''s''], Dir), ([''s'', ''a.txt''], File ''hello''),
                     ([''d'', ''txt''], Dir), ([''d'', ''txt'', ''a.txt''], File [])],
           logs = [(ERROR, ErrorCopying [''s'', ''a.txt''] OSError)] \<rparr>" by simp
  note u = C5_tasks_return[of read_fails "[''s'', ''a.txt'']" "[''d'']" w_fresh "[''s'', ''a.txt'']"]
  have i: "iterdir read_fails (files w_fresh) [''s'', ''a.txt''] = Inl NotADirectoryError"
    by (simp add: fs_eval w_fresh_def read_fails_def)
  from u i l have d: "read_folder (Suc 0) read_fails [''s'', ''a.txt''] [''d''] w_fresh
       = Some (w_fresh\<lparr> logs := [(ERROR, ErrorReading [''s'', ''a.txt''] NotADirectoryError)] \<rparr>)"
    by simp
  note v = C5_tasks_return[of source_closed "[''s'']" "[''d'']" w_fresh "[''s'', ''a.txt'']"]
  have j: "iterdir source_closed (files w_fresh) [''s''] = Inr [[''s'', ''a.txt'']]"
    "schedule source_closed (files w_fresh) [[''s'', ''a.txt'']] = Inl PermissionError"
    by (simp_all add: fs_eval w_fresh_def source_closed_def)
  from v j l have e: "read_folder (Suc 0) source_closed [''s''] [''d''] w_fresh
       = Some (w_fresh\<lparr> logs := [(ERROR, ErrorReading [''s''] PermissionError)] \<rparr>)"
    by simp
  from a c d e show ?thesis by blast
qed

section \<open>Entries that are neither files nor directories\<close>

lemma schedule_removeAll:
  "\<not> search_denied F item \<Longrightarrow> \<not> is_file fs item \<Longrightarrow> \<not> is_dir fs item \<Longrightarrow>
     schedule F fs (removeAll item items) = schedule F fs items"
  by (induction items) (auto simp: Path_is_file_def Path_is_dir_def)

lemmas walk_eval = read_folder_def gather_def read_folder_first_def copy_file_first_def
  copy_file_resume_def

text \<open>
  C8, as stated, fails: in a directory that can be listed but refuses search, \<open>is_file\<close>
  raises \<open>PermissionError\<close> on the socket. The walker logs an error for the folder and
  runs no task, so that the file next to the socket is not copied.
\<close>

theorem C8_closed_folder_counterexample:
  "iterdir source_closed (files w_special) [''s'']
     = Inr [[''s'', ''sock''], [''s'', ''a.txt'']]
   \<and> \<not> is_file (files w_special) [''s'', ''sock'']
   \<and> \<not> is_dir (files w_special) [''s'', ''sock'']
   \<and> read_folder (Suc (Suc 0)) source_closed [''s''] [''d''] w_special
       = Some (w_special\<lparr> logs := [(ERROR, ErrorReading [''s''] PermissionError)] \<rparr>)"
  by (simp add: walk_eval fs_eval w_special_def source_closed_def)

text \<open>
  C8, amended: an entry of the listing that is neither a regular file nor a directory
  gets no copy task and no walk task. When its status can be read, the walk of the
  directory is the walk of the listing without that entry: the same file system and the
  same log, so nothing is logged about it. When its status cannot be read, \<open>is_file\<close>
  raises: the walker logs one error for the directory and runs no task at all.
\<close>

theorem C8_other_entries_ignored:
  assumes "iterdir F (files w) src = Inr items"
    "\<not> is_file (files w) item" "\<not> is_dir (files w) item"
  shows "(\<forall>ts. schedule F (files w) items = Inr ts \<longrightarrow>
            CopyFile item \<notin> set ts \<and> ReadFolder item \<notin> set ts)
       \<and> (\<not> search_denied F item \<longrightarrow>
            read_folder (Suc n) F src dst w
              = (case schedule F (files w) (removeAll item items) of
                   Inl e \<Rightarrow> Some (w\<lparr> logs := logs w @ [(ERROR, ErrorReading src e)] \<rparr>)
                 | Inr ts \<Rightarrow> gather n F dst ts w))
       \<and> (search_denied F item \<and> item \<in> set items \<longrightarrow>
            read_folder (Suc n) F src dst w
              = Some (w\<lparr> logs := logs w @ [(ERROR, ErrorReading src PermissionError)] \<rparr>))"
proof (intro conjI allI impI)
  fix ts assume "schedule F (files w) items = Inr ts"
  from schedule_Inr[OF this] assms(2,3)
  show "CopyFile item \<notin> set ts" "ReadFolder item \<notin> set ts" by blast+
next
  assume "\<not> search_denied F item"
  then have "schedule F (files w) (removeAll item items) = schedule F (files w) items"
    using assms(2,3) by (rule schedule_removeAll)
  then show "read_folder (Suc n) F src dst w
              = (case schedule F (files w) (removeAll item items) of
                   Inl e \<Rightarrow> Some (w\<lparr> logs := logs w @ [(ERROR, ErrorReading src e)] \<rparr>)
                 | Inr ts \<Rightarrow> gather n F dst ts w)"
    using assms(1) by (simp add: read_folder_Suc read_folder_first_def split: sum.splits)
next
  assume "search_denied F item \<and> item \<in> set items"
  then have "schedule F (files w) items = Inl PermissionError"
    using schedule_denied by blast
  then show "read_folder (Suc n) F src dst w
              = Some (w\<lparr> logs := logs w @ [(ERROR, ErrorReading src PermissionError)] \<rparr>)"
    using assms(1) by (simp add: read_folder_Suc read_folder_first_def)
qed

theorem C8_other_entries_ignored_witness:
  "iterdir no_faults (files w_special) [''s''] = Inr [[''s'', ''sock''], [''s'', ''a.txt'']]
   \<and> \<not> is_file (files w_special) [''s'', ''sock'']
   \<and> \<not> is_dir (files w_special) [''s'', ''sock'']
   \<and> \<not> search_denied no_faults [''s'', ''sock'']
   \<and> read_folder (Suc (Suc 0)) no_faults [''s''] [''d''] w_special
       = Some \<lparr> files = files w_special @ [([''d'', ''txt''], Dir),
                    ([''d'', ''txt'', ''a.txt''], File ''hello'')],
                logs = [(INFO, Copied ''a.txt'' [''d'', ''txt''])] \<rparr>
   \<and> iterdir source_closed (files w_special) [''s'']
       = Inr [[''s'', ''sock''], [''s'', ''a.txt'']]
   \<and> search_denied source_closed [''s'', ''sock'']
   \<and> read_folder (Suc 0) source_closed [''s''] [''d''] w_special
       = Some (w_special\<lparr> logs := [(ERROR, ErrorReading [''s''] PermissionError)] \<rparr>)"
proof -
  have i: "iterdir no_faults (files w_special) [''s''] = Inr [[''s'', ''sock''], [''s'', ''a.txt'']]"
    "iterdir source_closed (files w_special) [''s''] = Inr [[''s'', ''sock''], [''s'', ''a.txt'']]"
    by (simp_all add: fs_eval w_special_def source_closed_def)
  have f: "\<not> is_file (files w_special) [''s'', ''sock'']" "\<not> is_dir (files w_special) [''s'', ''sock'']"
    by (simp_all add: fs_eval w_special_def)
  have s: "\<not> search_denied no_faults [''s'', ''sock'']"
    "search_denied source_closed [''s'', ''sock'']"
    by (simp_all add: no_faults_def source_closed_def)
  have l: "logs w_special = []" by (simp add: w_special_def)
  have g: "(case schedule no_faults (files w_special) (removeAll [''s'', ''sock'']
             [[''s'', ''sock''], [''s'', ''a.txt'']]) of
             Inl e \<Rightarrow> Some (w_special\<lparr> logs := logs w_special @ [(ERROR, ErrorReading [''s''] e)] \<rparr>)
           | Inr ts \<Rightarrow> gather (Suc 0) no_faults [''d''] ts w_special)
       = Some \<lparr> files = files w_special @ [([''d'', ''txt''], Dir),
                    ([''d'', ''txt'', ''a.txt''], File ''hello'')],
                logs = [(INFO, Copied ''a.txt'' [''d'', ''txt''])] \<rparr>"
    by (simp add: walk_eval fs_eval ext_a w_special_def)
  from C8_other_entries_ignored[OF i(1) f, of "Suc 0" "[''d'']"] s(1) g
  have a: "read_folder (Suc (Suc 0)) no_faults [''s''] [''d''] w_special
       = Some \<lparr> files = files w_special @ [([''d'', ''txt''], Dir),
                    ([''d'', ''txt'', ''a.txt''], File ''hello'')],
                logs = [(INFO, Copied ''a.txt'' [''d'', ''txt''])] \<rparr>" by simp
  from C8_other_entries_ignored[OF i(2) f, of 0 "[''d'']"] s(2) l
  have b: "read_folder (Suc 0) source_closed [''s''] [''d''] w_special
       = Some (w_special\<lparr> logs := [(ERROR, ErrorReading [''s''] PermissionError)] \<rparr>)"
    by simp
  from i f s a b show ?thesis by blast
qed

section \<open>Properties of the entry point\<close>

lemma wf_is_dir_prefix: "wf_fs fs \<Longrightarrow> is_dir fs p \<Longrightarrow> prefix q p \<Longrightarrow> is_dir fs q"
proof (induction p rule: rev_induct)
  case Nil
  then show ?case by simp
next
  case (snoc x xs)
  show ?case
  proof (cases "q = xs @ [x]")
    case True
    then show ?thesis using snoc.prems by simp
  next
    case False
    then have pq: "prefix q xs" using snoc.prems(3) by (auto simp: prefix_snoc)
    have "path_exists fs (xs @ [x])" using snoc.prems(2) by (simp add: is_dir_def path_exists_def)
    then have "is_dir fs xs" using snoc.prems(1) unfolding wf_fs_def parent_def
      by (metis butlast_snoc snoc_eq_iff_butlast)
    from snoc.IH[OF snoc.prems(1) this pq] show ?thesis .
  qed
qed

lemma world_upd:
  "(w::world)\<lparr> files := a, logs := b \<rparr> = \<lparr> files = a, logs = b \<rparr>"
  "(w::world)\<lparr> logs := b, files := a \<rparr> = \<lparr> files = a, logs = b \<rparr>"
  by (cases w; simp)+

lemma make_destination_cases:
  assumes "make_destination F dst w = (r, w2)"
  obtains (denied) "search_denied F dst" "r = Some PermissionError" "w2 = w"
  | (there) "\<not> search_denied F dst" "path_exists (files w) dst" "r = None" "w2 = w"
  | (made) fs' where "\<not> search_denied F dst" "\<not> path_exists (files w) dst"
      "mkdir F False dst (files w) = (r, fs')"
      "w2 = \<lparr> files = fs', logs = logs w @ [(INFO, CreatingDestination dst)] \<rparr>"
proof (cases "search_denied F dst")
  case True
  then have "r = Some PermissionError" "w2 = w"
    using assms by (simp_all add: make_destination_def Path_exists_def)
  then show ?thesis using denied True by blast
next
  case sd: False
  show ?thesis
  proof (cases "path_exists (files w) dst")
    case True
    then have "r = None" "w2 = w"
      using assms sd by (simp_all add: make_destination_def Path_exists_def)
    then show ?thesis using there sd True by blast
  next
    case False
    obtain r' fs' where m: "mkdir F False dst (files w) = (r', fs')" by fastforce
    then have "r = r'" "w2 = \<lparr> files = fs', logs = logs w @ [(INFO, CreatingDestination dst)] \<rparr>"
      using assms sd False
      by (simp_all add: make_destination_def Path_exists_def log_line_def Let_def world_upd)
    then show ?thesis using made sd False m by blast
  qed
qed

lemma make_destination_le:
  assumes "make_destination F dst w = (r, w2)"
  shows "le_world dst w w2" "wf_fs (files w) \<Longrightarrow> wf_fs (files w2)"
    "r = None \<Longrightarrow> path_exists (files w2) dst \<and> \<not> search_denied F dst"
  using assms
proof (atomize (full), cases rule: make_destination_cases)
  case denied
  then show "le_world dst w w2 \<and> (wf_fs (files w) \<longrightarrow> wf_fs (files w2))
      \<and> (r = None \<longrightarrow> path_exists (files w2) dst \<and> \<not> search_denied F dst)"
    by (simp add: le_world_refl)
next
  case there
  then show "le_world dst w w2 \<and> (wf_fs (files w) \<longrightarrow> wf_fs (files w2))
      \<and> (r = None \<longrightarrow> path_exists (files w2) dst \<and> \<not> search_denied F dst)"
    by (simp add: le_world_refl)
next
  case (made fs')
  have "adds dst (files w) fs'" using mkdir_grows[OF made(3)] by (rule grows_adds_dst)
  moreover have "wf_fs fs'" if "wf_fs (files w)" using mkdir_wf[OF made(3) that] .
  moreover have "path_exists fs' dst" if "r = None"
    using mkdir_None[of F False dst "files w" fs'] made(3) that
    by (simp add: is_dir_def path_exists_def)
  ultimately show "le_world dst w w2 \<and> (wf_fs (files w) \<longrightarrow> wf_fs (files w2))
      \<and> (r = None \<longrightarrow> path_exists (files w2) dst \<and> \<not> search_denied F dst)"
    using made by (simp add: le_world_def)
qed

text \<open>
  C7, as stated, fails: when the destination is missing and cannot be created (here its
  parent \<open>f\<close> is a regular file), \<open>mkdir\<close> raises, the exception leaves \<open>main\<close>, the
  destination is not created and the walker is not invoked.
\<close>

theorem C7_mkdir_raises_counterexample:
  "is_dir (files w_nodir) [''s''] \<and> \<not> path_exists (files w_nodir) [''f'', ''out'']
  \<and> main (Suc 0) no_faults [''s''] [''f'', ''out''] w_nodir
     = Some (Raised NotADirectoryError
         (w_nodir\<lparr> logs := [(INFO, CreatingDestination [''f'', ''out''])] \<rparr>))"
  by (simp add: main_def make_destination_def fs_eval w_nodir_def)

text \<open>
  C7, amended. When the status of the source path cannot be read, \<open>is_dir()\<close> at line
  142 raises and the exception leaves \<open>main\<close> with nothing logged. When the source is
  not a directory, \<open>main\<close> logs one error and returns, the walker not invoked. Otherwise,
  when the status of the destination cannot be read, \<open>exists()\<close> at line 150 raises and
  the exception leaves \<open>main\<close>; when the destination exists the walk starts; when it is
  missing, its creation with parents is attempted before the walk: when it succeeds the
  destination (and, in a well formed file system, every directory on the way to it) exists
  and the walk starts from that file system; when it raises, the exception leaves
  \<open>main\<close>, the destination does not exist and no walk takes place.
\<close>

theorem C7_main_preconditions:
  "(search_denied F src \<longrightarrow> main n F src dst w = Some (Raised PermissionError w))
   \<and> (\<not> search_denied F src \<and> \<not> is_dir (files w) src \<longrightarrow>
      main n F src dst w
        = Some (Returned (w\<lparr> logs := logs w @ [(ERROR, SourceNotDirectory src)] \<rparr>)))
   \<and> (\<not> search_denied F src \<and> is_dir (files w) src \<and> search_denied F dst \<longrightarrow>
      main n F src dst w = Some (Raised PermissionError w))
   \<and> (\<not> search_denied F src \<and> is_dir (files w) src \<and> \<not> search_denied F dst
        \<and> path_exists (files w) dst \<longrightarrow>
      main n F src dst w
        = map_option (\<lambda>w'. Returned (log_line CUSTOM_INFO Completed w'))
            (read_folder n F src dst (log_line CUSTOM_INFO Starting w)))
   \<and> (\<not> search_denied F src \<and> is_dir (files w) src \<and> \<not> search_denied F dst
        \<and> \<not> path_exists (files w) dst \<longrightarrow>
        (case mkdir F False dst (files w) of
           (None, fs') \<Rightarrow>
             is_dir fs' dst
             \<and> (wf_fs (files w) \<longrightarrow> (\<forall>q. prefix q dst \<longrightarrow> is_dir fs' q))
             \<and> main n F src dst w
                 = map_option (\<lambda>w'. Returned (log_line CUSTOM_INFO Completed w'))
                     (read_folder n F src dst
                        \<lparr> files = fs', logs = logs w @ [(INFO, CreatingDestination dst),
                                                         (CUSTOM_INFO, Starting)] \<rparr>)
         | (Some e, fs') \<Rightarrow>
             \<not> path_exists fs' dst
             \<and> main n F src dst w
               = Some (Raised e \<lparr> files = fs',
                                   logs = logs w @ [(INFO, CreatingDestination dst)] \<rparr>)))"
proof (intro conjI impI)
  assume "search_denied F src"
  then show "main n F src dst w = Some (Raised PermissionError w)"
    by (simp add: main_def Path_is_dir_def)
next
  assume "\<not> search_denied F src \<and> \<not> is_dir (files w) src"
  then show "main n F src dst w
        = Some (Returned (w\<lparr> logs := logs w @ [(ERROR, SourceNotDirectory src)] \<rparr>))"
    by (simp add: main_def log_line_def Path_is_dir_def)
next
  assume "\<not> search_denied F src \<and> is_dir (files w) src \<and> search_denied F dst"
  then show "main n F src dst w = Some (Raised PermissionError w)"
    by (simp add: main_def Path_is_dir_def make_destination_def Path_exists_def)
next
  assume "\<not> search_denied F src \<and> is_dir (files w) src \<and> \<not> search_denied F dst
        \<and> path_exists (files w) dst"
  then show "main n F src dst w
        = map_option (\<lambda>w'. Returned (log_line CUSTOM_INFO Completed w'))
            (read_folder n F src dst (log_line CUSTOM_INFO Starting w))"
    by (simp add: main_def Path_is_dir_def make_destination_def Path_exists_def
        split: option.splits)
next
  assume a: "\<not> search_denied F src \<and> is_dir (files w) src \<and> \<not> search_denied F dst
        \<and> \<not> path_exists (files w) dst"
  obtain r fs' where m: "mkdir F False dst (files w) = (r, fs')" by fastforce
  have md: "make_destination F dst w
      = (r, \<lparr> files = fs', logs = logs w @ [(INFO, CreatingDestination dst)] \<rparr>)"
    using a m by (simp add: make_destination_def Path_exists_def log_line_def Let_def world_upd)
  show "case mkdir F False dst (files w) of
           (None, fs') \<Rightarrow>
             is_dir fs' dst
             \<and> (wf_fs (files w) \<longrightarrow> (\<forall>q. prefix q dst \<longrightarrow> is_dir fs' q))
             \<and> main n F src dst w
                 = map_option (\<lambda>w'. Returned (log_line CUSTOM_INFO Completed w'))
                     (read_folder n F src dst
                        \<lparr> files = fs', logs = logs w @ [(INFO, CreatingDestination dst),
                                                         (CUSTOM_INFO, Starting)] \<rparr>)
         | (Some e, fs') \<Rightarrow>
             \<not> path_exists fs' dst
             \<and> main n F src dst w
               = Some (Raised e \<lparr> files = fs',
                                   logs = logs w @ [(INFO, CreatingDestination dst)] \<rparr>)"
  proof (cases r)
    case (Some e)
    have "node_at fs' dst = node_at (files w) dst" using m Some mkdir_Some by blast
    then have "\<not> path_exists fs' dst" using a by (simp add: path_exists_def)
    then show ?thesis using a m md Some by (simp add: main_def Path_is_dir_def)
  next
    case None
    have d: "is_dir fs' dst" using m None mkdir_None by blast
    have p: "\<forall>q. prefix q dst \<longrightarrow> is_dir fs' q" if "wf_fs (files w)"
      using mkdir_wf[OF m that] d wf_is_dir_prefix by blast
    have "main n F src dst w
                 = map_option (\<lambda>w'. Returned (log_line CUSTOM_INFO Completed w'))
                     (read_folder n F src dst
                        \<lparr> files = fs', logs = logs w @ [(INFO, CreatingDestination dst),
                                                         (CUSTOM_INFO, Starting)] \<rparr>)"
      using a md None
      by (simp add: main_def Path_is_dir_def log_line_def world_upd split: option.splits)
    then show ?thesis using m None d p by simp
  qed
qed

lemma wf_nodir: "wf_fs (files w_nodir)"
  by (auto simp: wf_fs_def w_nodir_def path_exists_def is_dir_def node_at_def parent_def
      split: if_splits)

lemmas run_eval = main_def make_destination_def walk_eval fs_eval ext_a

theorem C7_main_preconditions_witness:
  "search_denied source_closed [''s'', ''sub'']
   \<and> main (Suc 0) source_closed [''s'', ''sub''] [''d''] w_nodir
       = Some (Raised PermissionError w_nodir)
   \<and> \<not> search_denied no_faults [''f''] \<and> \<not> is_dir (files w_nodir) [''f'']
   \<and> main (Suc 0) no_faults [''f''] [''d''] w_nodir
       = Some (Returned (w_nodir\<lparr> logs := [(ERROR, SourceNotDirectory [''f''])] \<rparr>))
   \<and> \<not> search_denied source_closed [''s''] \<and> search_denied source_closed [''s'', ''out'']
   \<and> main (Suc 0) source_closed [''s''] [''s'', ''out''] w_nodir
       = Some (Raised PermissionError w_nodir)
   \<and> is_dir (files w_nodir) [''s''] \<and> \<not> path_exists (files w_nodir) [''out'', ''sorted'']
   \<and> wf_fs (files w_nodir)
   \<and> main (Suc (Suc 0)) no_faults [''s''] [''out'', ''sorted''] w_nodir
       = Some (Returned
           \<lparr> files = files w_nodir @ [([''out''], Dir), ([''out'', ''sorted''], Dir),
                ([''out'', ''sorted'', ''txt''], Dir),
                ([''out'', ''sorted'', ''txt'', ''a.txt''], File ''hello'')],
             logs = [(INFO, CreatingDestination [''out'', ''sorted'']), (CUSTOM_INFO, Starting),
                     (INFO, Copied ''a.txt'' [''out'', ''sorted'', ''txt'']),
                     (CUSTOM_INFO, Completed)] \<rparr>)"
proof -
  let ?fs = "files w_nodir @ [([''out''], Dir), ([''out'', ''sorted''], Dir)]"
  have s: "search_denied source_closed [''s'', ''sub'']" "\<not> search_denied no_faults q"
    "\<not> search_denied source_closed [''s'']" "search_denied source_closed [''s'', ''out'']"
    for q by (simp_all add: source_closed_def no_faults_def)
  have a: "\<not> is_dir (files w_nodir) [''f'']"
    by (simp add: fs_eval w_nodir_def)
  have l: "logs w_nodir = []" by (simp add: w_nodir_def)
  from C7_main_preconditions[of source_closed "[''s'', ''sub'']" "Suc 0" "[''d'']" w_nodir] s
  have z: "main (Suc 0) source_closed [''s'', ''sub''] [''d''] w_nodir
       = Some (Raised PermissionError w_nodir)" by blast
  from C7_main_preconditions[of no_faults "[''f'']" "Suc 0" "[''d'']" w_nodir] a l s
  have b: "main (Suc 0) no_faults [''f''] [''d''] w_nodir
       = Some (Returned (w_nodir\<lparr> logs := [(ERROR, SourceNotDirectory [''f''])] \<rparr>))"
    by simp
  have c: "is_dir (files w_nodir) [''s'']" "\<not> path_exists (files w_nodir) [''out'', ''sorted'']"
    by (simp_all add: fs_eval w_nodir_def)
  from C7_main_preconditions[of source_closed "[''s'']" "Suc 0" "[''s'', ''out'']" w_nodir] s c
  have y: "main (Suc 0) source_closed [''s''] [''s'', ''out''] w_nodir
       = Some (Raised PermissionError w_nodir)" by blast
  have m: "mkdir no_faults False [''out'', ''sorted''] (files w_nodir) = (None, ?fs)"
    by (simp add: fs_eval w_nodir_def)
  have r: "read_folder (Suc (Suc 0)) no_faults [''s''] [''out'', ''sorted'']
             \<lparr> files = ?fs, logs = [(INFO, CreatingDestination [''out'', ''sorted'']),
                                    (CUSTOM_INFO, Starting)] \<rparr>
       = Some \<lparr> files = ?fs @ [([''out'', ''sorted'', ''txt''], Dir),
                   ([''out'', ''sorted'', ''txt'', ''a.txt''], File ''hello'')],
               logs = [(INFO, CreatingDestination [''out'', ''sorted'']), (CUSTOM_INFO, Starting),
                       (INFO, Copied ''a.txt'' [''out'', ''sorted'', ''txt''])] \<rparr>"
    by (simp add: walk_eval fs_eval ext_a w_nodir_def)
  from C7_main_preconditions[of no_faults "[''s'']" "Suc (Suc 0)" "[''out'', ''sorted'']" w_nodir]
    c m l r s
  have d: "main (Suc (Suc 0)) no_faults [''s''] [''out'', ''sorted''] w_nodir
       = Some (Returned
           \<lparr> files = files w_nodir @ [([''out''], Dir), ([''out'', ''sorted''], Dir),
                ([''out'', ''sorted'', ''txt''], Dir),
                ([''out'', ''sorted'', ''txt'', ''a.txt''], File ''hello'')],
             logs = [(INFO, CreatingDestination [''out'', ''sorted'']), (CUSTOM_INFO, Starting),
                     (INFO, Copied ''a.txt'' [''out'', ''sorted'', ''txt'']),
                     (CUSTOM_INFO, Completed)] \<rparr>)"
    by (simp add: log_line_def)
  from s a b c d y z wf_nodir show ?thesis by blast
qed

section \<open>A full run leaves the source tree alone\<close>

lemma main_cases:
  assumes "main n F src dst w = Some r"
  obtains (nodir) "\<not> search_denied F src" "\<not> is_dir (files w) src"
      "r = Returned (log_line ERROR (SourceNotDirectory src) w)"
  | (raised) e w2 where "r = Raised e w2" "le_world dst w w2"
  | (walked) w2 w3 where "\<not> search_denied F src" "is_dir (files w) src"
      "make_destination F dst w = (None, w2)"
      "read_folder n F src dst (log_line CUSTOM_INFO Starting w2) = Some w3"
      "r = Returned (log_line CUSTOM_INFO Completed w3)"
proof (cases "search_denied F src")
  case True
  then have "r = Raised PermissionError w" using assms by (simp add: main_def Path_is_dir_def)
  then show ?thesis using raised le_world_refl by blast
next
  case sd: False
  show ?thesis
  proof (cases "is_dir (files w) src")
    case False
    then have "r = Returned (log_line ERROR (SourceNotDirectory src) w)"
      using assms sd by (simp add: main_def Path_is_dir_def)
    then show ?thesis using nodir sd False by blast
  next
    case d: True
    obtain e w2 where m: "make_destination F dst w = (e, w2)" by fastforce
    show ?thesis
    proof (cases e)
      case (Some x)
      then have "r = Raised x w2" using assms sd d m by (simp add: main_def Path_is_dir_def)
      then show ?thesis using raised make_destination_le(1)[OF m] by blast
    next
      case None
      then obtain w3 where
        "read_folder n F src dst (log_line CUSTOM_INFO Starting w2) = Some w3"
        "r = Returned (log_line CUSTOM_INFO Completed w3)"
        using assms sd d m by (auto simp: main_def Path_is_dir_def split: option.splits)
      then show ?thesis using walked sd d m None by blast
    qed
  qed
qed

lemma main_le_world:
  assumes "main n F src dst w = Some r"
  shows "le_world dst w (final_world r)"
  using assms
proof (cases rule: main_cases)
  case nodir
  then show ?thesis by (simp add: final_world_def le_world_log)
next
  case (raised e w2)
  then show ?thesis by (simp add: final_world_def)
next
  case (walked w2 w3)
  have "le_world dst w w2" using walked(3) by (rule make_destination_le)
  moreover have "le_world dst w2 (log_line CUSTOM_INFO Starting w2)" by (rule le_world_log)
  moreover have "le_world dst (log_line CUSTOM_INFO Starting w2) w3"
    using walked(4) by (rule walk_le_world)
  moreover have "le_world dst w3 (log_line CUSTOM_INFO Completed w3)" by (rule le_world_log)
  ultimately have "le_world dst w (log_line CUSTOM_INFO Completed w3)"
    using le_world_trans by blast
  then show ?thesis using walked(5) by (simp add: final_world_def)
qed

lemma adds_outside:
  assumes "adds dst fs fs'" "\<not> prefix src dst" "\<not> prefix dst src" "prefix src q"
  shows "node_at fs' q = node_at fs q"
proof -
  have "\<not> prefix q dst" using assms(2,4) by (meson prefix_order.trans)
  moreover have "q \<noteq> dst @ [e]" for e using assms(2,3,4) by (auto simp: prefix_snoc)
  moreover have "q \<noteq> dst @ [e, n]" for e n
  proof
    assume "q = dst @ [e, n]"
    then have "prefix src ((dst @ [e]) @ [n])" using assms(4) by simp
    then have "prefix src (dst @ [e]) \<or> src = dst @ [e, n]" unfolding prefix_snoc by auto
    then show False using assms(2,3) by (auto simp: prefix_snoc)
  qed
  ultimately show ?thesis using assms(1) unfolding adds_def by blast
qed

lemma run_fresh: "main (Suc (Suc 0)) no_faults [''s''] [''d''] w_fresh
   = Some (Returned \<lparr> files = [([''d''], Dir), ([''s''], Dir),
        ([''s'', ''a.txt''], File ''hello''), ([''d'', ''txt''], Dir),
        ([''d'', ''txt'', ''a.txt''], File ''hello'')],
      logs = [(CUSTOM_INFO, Starting), (INFO, Copied ''a.txt'' [''d'', ''txt'']),
              (CUSTOM_INFO, Completed)] \<rparr>)"
  by (simp add: run_eval w_fresh_def)

lemma wf_fresh: "wf_fs (files w_fresh)"
  by (auto simp: wf_fs_def w_fresh_def path_exists_def is_dir_def node_at_def parent_def
      split: if_splits)




end
